theory Spec2Isabelle
  imports Main "HOL-Library.Word" "HOL-Library.List_Lexorder" "HOL-Library.Product_Lexorder"
begin

unbundle bit_operations_syntax

section \<open>Data model of the labels64 package\<close>

type_synonym byte = "8 word"
type_synonym bytes = "byte list"
type_synonym uint32 = "32 word"
type_synonym uint64 = "64 word"
type_synonym key = "byte list"

text \<open>
  A \<^verbatim>\<open>storage.Chunk\<close> carries an operation value \<^verbatim>\<open>ChunkOp.Op\<close> of interface type and
  the value bytes \<^verbatim>\<open>V\<close>. The consumers assert \<^verbatim>\<open>Op.(uint64)\<close>; any other dynamic
  type makes that assertion panic.
\<close>

datatype op = OpUint64 uint64 | OpOther

record Chunk =
  chunk_Op :: op
  chunk_V :: bytes

text \<open>
  What a consumer has received on its channel: \<open>Some c\<close> is a chunk, \<open>None\<close> is the nil
  sentinel. A consumer that has read everything sent so far without meeting nil is blocked
  on the receive.
\<close>

type_synonym channel = "Chunk option list"

datatype exit = Returned | Blocked | Panicked

definition nl :: string where
  "nl = [CHR 0x0A]"

subsection \<open>Index keys\<close>

text \<open>\<^verbatim>\<open>binary.BigEndian.PutUint64\<close>: most significant byte first.\<close>

definition BigEndian_PutUint64 :: "uint64 \<Rightarrow> bytes" where
  "BigEndian_PutUint64 v =
     [ucast (drop_bit 56 v), ucast (drop_bit 48 v), ucast (drop_bit 40 v), ucast (drop_bit 32 v),
      ucast (drop_bit 24 v), ucast (drop_bit 16 v), ucast (drop_bit 8 v), ucast v]"

text \<open>\<^verbatim>\<open>binary.BigEndian.Uint64\<close> on the first eight bytes of a slice.\<close>

fun BigEndian_Uint64 :: "bytes \<Rightarrow> uint64" where
  "BigEndian_Uint64 (b0 # b1 # b2 # b3 # b4 # b5 # b6 # b7 # _) =
     (push_bit 56 (ucast b0) OR push_bit 48 (ucast b1) OR push_bit 40 (ucast b2)
      OR push_bit 32 (ucast b3) OR push_bit 24 (ucast b4) OR push_bit 16 (ucast b5)
      OR push_bit 8 (ucast b6) OR ucast b7)"
| "BigEndian_Uint64 _ = 0"

text \<open>
  Modelled from the spec: \<^verbatim>\<open>voxels.NewLabelSizesIndex\<close> is declared in code that is not
  available. The size index key is \<^verbatim>\<open>tag(1) | voxelCount(8) | label(8)\<close> with big-endian
  numeric fields; the namespace tag is a parameter.
\<close>

definition NewLabelSizesIndex :: "byte \<Rightarrow> uint64 \<Rightarrow> uint64 \<Rightarrow> key" where
  "NewLabelSizesIndex tag sz label = tag # BigEndian_PutUint64 sz @ BigEndian_PutUint64 label"

text \<open>
  Modelled from the spec: \<^verbatim>\<open>voxels.LabelFromLabelSizesKey\<close> is declared in code that is not
  available. It decodes a size index key back to its label; a key that does not have the
  layout \<^verbatim>\<open>tag(1) | voxelCount(8) | label(8)\<close> yields an error.
\<close>

definition LabelFromLabelSizesKey :: "byte \<Rightarrow> key \<Rightarrow> string + uint64" where
  "LabelFromLabelSizesKey tag k =
     (if length k = 17 \<and> hd k = tag then Inr (BigEndian_Uint64 (drop 9 k))
      else Inl ''Cannot convert key to label and size'')"

text \<open>
  Modelled from the spec: \<^verbatim>\<open>voxels.NewLabelSurfaceIndex\<close> is declared in code that is not
  available. The surface blob key is \<^verbatim>\<open>tag(1) | label(8)\<close>.
\<close>

definition NewLabelSurfaceIndex :: "byte \<Rightarrow> uint64 \<Rightarrow> key" where
  "NewLabelSurfaceIndex tag label = tag # BigEndian_PutUint64 label"

text \<open>
  Modelled from the spec: \<^verbatim>\<open>dvid.EmptyValue\<close> is declared in code that is not available. A
  size index entry has an empty marker as its value.
\<close>

definition EmptyValue :: bytes where
  "EmptyValue = []"

section \<open>ComputeSizes\<close>

text \<open>
  The collaborators of \<^verbatim>\<open>ComputeSizes\<close> that live in code that is not available are
  parameters: whether the small data store can batch, the RLE decoder
  \<^verbatim>\<open>RLEs.UnmarshalBinary\<close> and \<^verbatim>\<open>RLEs.Stats\<close>, the namespace tag of the size index, and
  the outcome of each \<^verbatim>\<open>batch.Commit\<close> (given the number of commits made before it and
  the buffered puts): \<open>None\<close> is a nil error.
\<close>

record 'r sizes_env =
  is_batcher :: bool
  UnmarshalBinary :: "bytes \<Rightarrow> string + 'r"
  Stats :: "'r \<Rightarrow> int \<times> int"
  Commit_err :: "nat \<Rightarrow> (key \<times> bytes) list \<Rightarrow> string option"
  KeyLabelSizes :: byte

text \<open>
  The local variables of \<^verbatim>\<open>ComputeSizes\<close>, the open batch, and what the run has done so
  far: every \<^verbatim>\<open>batch.Put\<close> in call order, the entries made durable by successful commits,
  the number of commits attempted inside the loop and at the sentinel, the log lines and the
  calls of \<^verbatim>\<open>wg.Done\<close>. \<^verbatim>\<open>putsInBatch\<close> is a Go \<^verbatim>\<open>int\<close>, taken unbounded here.
\<close>

record sizes_state =
  curLabel :: uint64
  curSize :: uint64
  putsInBatch :: nat
  notFirst :: bool
  batch :: "(key \<times> bytes) list"
  puts :: "(key \<times> bytes) list"
  committed :: "(key \<times> bytes) list"
  commits_mid :: nat
  commits_end :: nat
  logged :: "string list"
  wg_done :: nat

definition BATCH_SIZE :: nat where
  "BATCH_SIZE = 10000"

definition sizes_init :: sizes_state where
  "sizes_init = \<lparr>curLabel = 0, curSize = 0, putsInBatch = 0, notFirst = False, batch = [],
     puts = [], committed = [], commits_mid = 0, commits_end = 0, logged = [], wg_done = 0\<rparr>"

definition batch_Put :: "sizes_state \<Rightarrow> key \<Rightarrow> bytes \<Rightarrow> sizes_state" where
  "batch_Put s k v = s\<lparr>batch := batch s @ [(k, v)], puts := puts s @ [(k, v)]\<rparr>"

text \<open>\<^verbatim>\<open>batch.Commit\<close>: on success the buffered puts become durable.\<close>

definition batch_Commit :: "'r sizes_env \<Rightarrow> sizes_state \<Rightarrow> string option \<times> sizes_state" where
  "batch_Commit env s =
     (case Commit_err env (commits_mid s + commits_end s) (batch s) of
        Some err \<Rightarrow> (Some err, s)
      | None \<Rightarrow> (None, s\<lparr>committed := committed s @ batch s\<rparr>))"

definition sizes_Infof :: "sizes_state \<Rightarrow> string \<Rightarrow> sizes_state" where
  "sizes_Infof s msg = s\<lparr>logged := logged s @ [msg]\<rparr>"

text \<open>The branch of the loop taken at the nil sentinel (source lines 303 to 310).\<close>

definition ComputeSizes_nil :: "'r sizes_env \<Rightarrow> sizes_state \<Rightarrow> sizes_state" where
  "ComputeSizes_nil env s =
     (let key = NewLabelSizesIndex (KeyLabelSizes env) (curSize s) (curLabel s);
          s1 = batch_Put s key EmptyValue
      in case batch_Commit env s1 of
           (Some err, s2) \<Rightarrow>
             sizes_Infof (s2\<lparr>commits_end := commits_end s2 + 1\<rparr>)
               (''Error on batch PUT of label sizes: '' @ err @ nl)
         | (None, s2) \<Rightarrow> s2\<lparr>commits_end := commits_end s2 + 1\<rparr>)"

text \<open>
  The "new label" block of the loop body (source lines 322 to 334): \<open>Some ex\<close> leaves the
  function, \<open>None\<close> falls through to the assignments at the end of the body.
\<close>

definition ComputeSizes_store :: "'r sizes_env \<Rightarrow> uint64 \<Rightarrow> sizes_state \<Rightarrow> exit option \<times> sizes_state" where
  "ComputeSizes_store env label s =
     (if notFirst s \<and> label \<noteq> curLabel s then
        let key = NewLabelSizesIndex (KeyLabelSizes env) (curSize s) (curLabel s);
            s1 = s\<lparr>curSize := 0\<rparr>;
            s2 = batch_Put s1 key EmptyValue;
            s3 = s2\<lparr>putsInBatch := putsInBatch s2 + 1\<rparr>
        in if putsInBatch s3 mod BATCH_SIZE = 0 then
             (case batch_Commit env s3 of
                (Some err, s4) \<Rightarrow>
                  (Some Returned,
                   sizes_Infof (s4\<lparr>commits_mid := commits_mid s4 + 1\<rparr>)
                     (''Error on batch PUT of label sizes: '' @ err @ nl))
              | (None, s4) \<Rightarrow> (None, s4\<lparr>commits_mid := commits_mid s4 + 1, batch := []\<rparr>))
           else (None, s3)
      else (None, s))"

text \<open>One pass of the loop body on a chunk that is not nil (source lines 311 to 337).\<close>

definition ComputeSizes_chunk :: "'r sizes_env \<Rightarrow> Chunk \<Rightarrow> sizes_state \<Rightarrow> exit option \<times> sizes_state" where
  "ComputeSizes_chunk env chunk s =
     (case chunk_Op chunk of
        OpOther \<Rightarrow> (Some Panicked, s)
      | OpUint64 label \<Rightarrow>
          (case UnmarshalBinary env (chunk_V chunk) of
             Inl err \<Rightarrow> (Some Returned, sizes_Infof s (''Error deserializing RLEs: '' @ err @ nl))
           | Inr rles \<Rightarrow>
               let numVoxels = fst (Stats env rles)
               in case ComputeSizes_store env label s of
                    (Some ex, s') \<Rightarrow> (Some ex, s')
                  | (None, s') \<Rightarrow>
                      (None, s'\<lparr>curLabel := label,
                                curSize := curSize s' + word_of_int numVoxels,
                                notFirst := True\<rparr>)))"

fun ComputeSizes_loop :: "'r sizes_env \<Rightarrow> channel \<Rightarrow> sizes_state \<Rightarrow> exit \<times> sizes_state" where
  "ComputeSizes_loop env [] s = (Blocked, s)"
| "ComputeSizes_loop env (None # ch) s = (Returned, ComputeSizes_nil env s)"
| "ComputeSizes_loop env (Some chunk # ch) s =
     (case ComputeSizes_chunk env chunk s of
        (Some ex, s') \<Rightarrow> (ex, s')
      | (None, s') \<Rightarrow> ComputeSizes_loop env ch s')"

text \<open>
  The whole function. A store that cannot batch makes it return before the deferred
  \<^verbatim>\<open>wg.Done\<close> is registered; otherwise the deferred call runs when the function returns
  or panics, not while it is blocked on the channel.
\<close>

definition ComputeSizes :: "'r sizes_env \<Rightarrow> channel \<Rightarrow> exit \<times> sizes_state" where
  "ComputeSizes env ch =
     (if \<not> is_batcher env then
        (Returned, sizes_Infof sizes_init
           ''Unable to compute label sizes: small data store can't do batching!'')
      else case ComputeSizes_loop env ch sizes_init of
             (Blocked, s) \<Rightarrow> (Blocked, s)
           | (ex, s) \<Rightarrow> (ex, s\<lparr>wg_done := wg_done s + 1\<rparr>))"

section \<open>ComputeSurface\<close>

text \<open>The \<^verbatim>\<open>%d\<close> verb of the log formats on an unsigned value.\<close>

definition digit_char :: "nat \<Rightarrow> char" where
  "digit_char d = ''0123456789'' ! d"

fun decimal :: "nat \<Rightarrow> string" where
  "decimal n =
     (if n < 10 then [digit_char n] else decimal (n div 10) @ [digit_char (n mod 10)])"

declare decimal.simps [simp del]

text \<open>
  The collaborators of \<^verbatim>\<open>ComputeSurface\<close> in code that is not available are parameters: the
  type \<^verbatim>\<open>dvid.SparseVol\<close> with its zero value and its methods (\<^verbatim>\<open>SurfaceSerialization\<close>
  already applied to the block size and voxel size of the data), the error of
  \<^verbatim>\<open>storage.BigDataStore\<close>, \<^verbatim>\<open>dvid.SerializeData\<close> with gzip and no checksum, the
  namespace tag of the surface keys, the outcome of each \<^verbatim>\<open>store.Put\<close> (given the
  number of puts made before it), and whether the bounded channel \<^verbatim>\<open>server.HandlerToken\<close>
  takes a send when the function ends (it has room, or a receiver is waiting): if it does
  not, the send blocks.
\<close>

record 'v surface_env =
  vol_zero :: 'v
  vol_Clear :: "'v \<Rightarrow> 'v"
  vol_SetLabel :: "'v \<Rightarrow> uint64 \<Rightarrow> 'v"
  vol_Label :: "'v \<Rightarrow> uint64"
  vol_AddRLEs :: "'v \<Rightarrow> bytes \<Rightarrow> string + 'v"
  vol_SurfaceSerialization :: "'v \<Rightarrow> string + bytes"
  BigDataStore_err :: "string option"
  SerializeData :: "bytes \<Rightarrow> string + bytes"
  Put_err :: "nat \<Rightarrow> key \<Rightarrow> bytes \<Rightarrow> string option"
  KeyLabelSurface :: byte
  HandlerToken_room :: bool

text \<open>
  The local variables of \<^verbatim>\<open>ComputeSurface\<close> and what the run has done so far: the volumes
  handed to \<^verbatim>\<open>computeAndSaveSurface\<close> in call order, the number of \<^verbatim>\<open>store.Put\<close> calls,
  the blobs stored by the successful ones, the log lines, the calls of \<^verbatim>\<open>wg.Done\<close>,
  the permits sent to \<^verbatim>\<open>server.HandlerToken\<close>, and whether the function is stuck in
  that send.
\<close>

record 'v surface_state =
  curVol :: 'v
  surf_curLabel :: uint64
  surf_notFirst :: bool
  finalized :: "'v list"
  put_calls :: nat
  stored :: "(key \<times> bytes) list"
  surf_logged :: "string list"
  surf_wg_done :: nat
  handler_tokens :: nat
  send_blocked :: bool

definition surface_init :: "'v surface_env \<Rightarrow> 'v surface_state" where
  "surface_init env = \<lparr>curVol = vol_zero env, surf_curLabel = 0, surf_notFirst = False,
     finalized = [], put_calls = 0, stored = [], surf_logged = [], surf_wg_done = 0,
     handler_tokens = 0, send_blocked = False\<rparr>"

definition surface_Infof :: "'v surface_state \<Rightarrow> string \<Rightarrow> 'v surface_state" where
  "surface_Infof s msg = s\<lparr>surf_logged := surf_logged s @ [msg]\<rparr>"

text \<open>\<^verbatim>\<open>store.Put\<close> on the big data store.\<close>

definition store_Put :: "'v surface_env \<Rightarrow> 'v surface_state \<Rightarrow> key \<Rightarrow> bytes \<Rightarrow> string option \<times> 'v surface_state" where
  "store_Put env s k v =
     (case Put_err env (put_calls s) k v of
        Some err \<Rightarrow> (Some err, s\<lparr>put_calls := put_calls s + 1\<rparr>)
      | None \<Rightarrow> (None, s\<lparr>put_calls := put_calls s + 1, stored := stored s @ [(k, v)]\<rparr>))"

definition computeAndSaveSurface :: "'v surface_env \<Rightarrow> 'v surface_state \<Rightarrow> 'v \<Rightarrow> string option \<times> 'v surface_state" where
  "computeAndSaveSurface env s0 vol =
     (let s = s0\<lparr>finalized := finalized s0 @ [vol]\<rparr>
      in case vol_SurfaceSerialization env vol of
           Inl err \<Rightarrow> (Some err, s)
         | Inr surfaceBytes \<Rightarrow>
             (case BigDataStore_err env of
                Some err \<Rightarrow> (Some err, s)
              | None \<Rightarrow>
                  (case SerializeData env surfaceBytes of
                     Inl err \<Rightarrow>
                       (Some (''Unable to serialize data in surface computation: '' @ err @ nl), s)
                   | Inr serialization \<Rightarrow>
                       store_Put env s (NewLabelSurfaceIndex (KeyLabelSurface env) (vol_Label env vol))
                         serialization)))"

text \<open>
  The guarded call that both the sentinel branch and the label-change branch make
  (source lines 135 to 140 and 145 to 150): \<open>True\<close> means the function returns.
\<close>

definition ComputeSurface_save :: "'v surface_env \<Rightarrow> 'v surface_state \<Rightarrow> bool \<times> 'v surface_state" where
  "ComputeSurface_save env s =
     (if surf_notFirst s then
        (case computeAndSaveSurface env s (curVol s) of
           (Some err, s1) \<Rightarrow>
             (True, surface_Infof s1 (''Error on computing surface and normals: '' @ err @ nl))
         | (None, s1) \<Rightarrow> (False, s1))
      else (False, s))"

text \<open>
  The block entered at a label boundary (source lines 144 to 153): \<open>True\<close> means the
  function returns.
\<close>

definition ComputeSurface_boundary :: "'v surface_env \<Rightarrow> uint64 \<Rightarrow> 'v surface_state \<Rightarrow> bool \<times> 'v surface_state" where
  "ComputeSurface_boundary env label s =
     (if label \<noteq> surf_curLabel s \<or> label = 0 then
        (let r = ComputeSurface_save env s
         in if fst r then (True, snd r)
            else (False, (snd r)\<lparr>curVol := vol_SetLabel env (vol_Clear env (curVol (snd r))) label\<rparr>))
      else (False, s))"

text \<open>One pass of the loop body on a chunk that is not nil (source lines 143 to 160).\<close>

definition ComputeSurface_chunk :: "'v surface_env \<Rightarrow> Chunk \<Rightarrow> 'v surface_state \<Rightarrow> exit option \<times> 'v surface_state" where
  "ComputeSurface_chunk env chunk s =
     (case chunk_Op chunk of
        OpOther \<Rightarrow> (Some Panicked, s)
      | OpUint64 label \<Rightarrow>
          (let r = ComputeSurface_boundary env label s; s2 = snd r
           in if fst r then (Some Returned, s2)
              else case vol_AddRLEs env (curVol s2) (chunk_V chunk) of
                     Inl err \<Rightarrow>
                       (Some Returned,
                        surface_Infof s2
                          (''Error adding RLE for label '' @ decimal (unat label) @ '': '' @ err @ nl))
                   | Inr vol \<Rightarrow>
                       (None, s2\<lparr>curVol := vol, surf_curLabel := label, surf_notFirst := True\<rparr>)))"

fun ComputeSurface_loop :: "'v surface_env \<Rightarrow> channel \<Rightarrow> 'v surface_state \<Rightarrow> exit \<times> 'v surface_state" where
  "ComputeSurface_loop env [] s = (Blocked, s)"
| "ComputeSurface_loop env (None # ch) s = (Returned, snd (ComputeSurface_save env s))"
| "ComputeSurface_loop env (Some chunk # ch) s =
     (case ComputeSurface_chunk env chunk s of
        (Some ex, s') \<Rightarrow> (ex, s')
      | (None, s') \<Rightarrow> ComputeSurface_loop env ch s')"

text \<open>
  The deferred closure (source lines 123 to 126): it calls \<^verbatim>\<open>wg.Done\<close> and then sends
  one permit to \<^verbatim>\<open>server.HandlerToken\<close>. The send is a blocking send on a bounded
  channel: when the channel does not take it, the function stays in the send for good,
  after \<^verbatim>\<open>wg.Done\<close> and with no permit released.
\<close>

definition ComputeSurface_deferred_calls :: "'v surface_env \<Rightarrow> 'v surface_state \<Rightarrow> 'v surface_state" where
  "ComputeSurface_deferred_calls env s =
     (let s1 = s\<lparr>surf_wg_done := surf_wg_done s + 1\<rparr>
      in if HandlerToken_room env then s1\<lparr>handler_tokens := handler_tokens s1 + 1\<rparr>
         else s1\<lparr>send_blocked := True\<rparr>)"

text \<open>
  The whole function. The first component tells how the loop was left: by a return
  statement, by a panic, or not at all, the function being blocked on the receive. The
  deferred closure runs in the first two cases; the function has ended only if
  \<open>send_blocked\<close> is false after it.
\<close>

definition ComputeSurface :: "'v surface_env \<Rightarrow> channel \<Rightarrow> exit \<times> 'v surface_state" where
  "ComputeSurface env ch =
     (case ComputeSurface_loop env ch (surface_init env) of
        (Blocked, s) \<Rightarrow> (Blocked, s)
      | (ex, s) \<Rightarrow> (ex, ComputeSurface_deferred_calls env s))"

section \<open>GetSurface\<close>

text \<open>
  The collaborators of \<^verbatim>\<open>GetSurface\<close> are parameters: the error of
  \<^verbatim>\<open>storage.BigDataStore\<close>, the answer of \<^verbatim>\<open>bigdata.Get\<close> for a key (an error, or the
  stored bytes, \<open>None\<close> being the nil slice of a key that is not there),
  \<^verbatim>\<open>dvid.DeserializeData\<close> with its uncompress flag, and the namespace tag of the surface
  keys.
\<close>

record lookup_env =
  lookup_BigDataStore_err :: "string option"
  lookup_Get :: "key \<Rightarrow> string + bytes option"
  DeserializeData :: "bytes \<Rightarrow> bool \<Rightarrow> string + bytes"
  lookup_KeyLabelSurface :: byte

text \<open>
  The three results of \<^verbatim>\<open>GetSurface\<close>: the byte slice (\<open>None\<close> is nil), the found flag
  and the error (\<open>None\<close> is nil).
\<close>

definition GetSurface :: "lookup_env \<Rightarrow> uint64 \<Rightarrow> bytes option \<times> bool \<times> string option" where
  "GetSurface env label =
     (case lookup_BigDataStore_err env of
        Some err \<Rightarrow>
          (None, False, Some (''Cannot get datastore that handles big data: '' @ err @ nl))
      | None \<Rightarrow>
          (case lookup_Get env (NewLabelSurfaceIndex (lookup_KeyLabelSurface env) label) of
             Inl err \<Rightarrow>
               (None, False,
                Some (''Error in retrieving surface for label '' @ decimal (unat label) @ '': '' @ err))
           | Inr None \<Rightarrow> (Some [], False, None)
           | Inr (Some data) \<Rightarrow>
               (let uncompress = False
                in case DeserializeData env data uncompress of
                     Inl err \<Rightarrow>
                       (None, False,
                        Some (''Unable to deserialize surface for label '' @ decimal (unat label)
                              @ '': '' @ err @ nl))
                   | Inr surfaceBytes \<Rightarrow> (Some surfaceBytes, True, None))))"

section \<open>The small data store\<close>

text \<open>
  Modelled from the spec: the storage engine is in code that is not available. It is an ordered
  key-value store whose range read returns, in ascending key order, the entries with a key
  between the first and the last key, both included; keys are byte strings compared
  lexicographically. A store is the list of its entries, one per key.
\<close>

definition store_range :: "(key \<times> bytes) list \<Rightarrow> key \<Rightarrow> key \<Rightarrow> (key \<times> bytes) list" where
  "store_range kvs firstKey lastKey =
     sort_key fst (filter (\<lambda>kv. firstKey \<le> fst kv \<and> fst kv \<le> lastKey) kvs)"

text \<open>
  What \<^verbatim>\<open>GetSparseVol\<close> and \<^verbatim>\<open>GetSizeRange\<close> take from their surroundings: the error of
  \<^verbatim>\<open>storage.SmallDataStore\<close>, the entries of the store, the error of a range read, the
  namespace tags, and the smallest and largest block coordinate
  (\<^verbatim>\<open>dvid.MinIndexZYX\<close>, \<^verbatim>\<open>dvid.MaxIndexZYX\<close>) as index bytes.
\<close>

record small_env =
  SmallDataStore_err :: "string option"
  small_kvs :: "(key \<times> bytes) list"
  range_err :: "string option"
  tag_LabelSizes :: byte
  tag_LabelSpatialMap :: byte
  MinIndexZYX :: bytes
  MaxIndexZYX :: bytes

definition KeysInRange :: "small_env \<Rightarrow> key \<Rightarrow> key \<Rightarrow> string + key list" where
  "KeysInRange env firstKey lastKey =
     (case range_err env of
        Some err \<Rightarrow> Inl err
      | None \<Rightarrow> Inr (map fst (store_range (small_kvs env) firstKey lastKey)))"

text \<open>
  \<^verbatim>\<open>ProcessRange\<close> hands the value of each entry of the range to the callback, in scan
  order; the entries are folded here one after the other.
\<close>

definition ProcessRange :: "small_env \<Rightarrow> key \<Rightarrow> key \<Rightarrow> (bytes \<Rightarrow> 'a \<Rightarrow> 'a) \<Rightarrow> 'a \<Rightarrow> string + 'a" where
  "ProcessRange env firstKey lastKey f a =
     (case range_err env of
        Some err \<Rightarrow> Inl err
      | None \<Rightarrow> Inr (fold f (map snd (store_range (small_kvs env) firstKey lastKey)) a))"

section \<open>GetSparseVol\<close>

text \<open>
  Modelled from the spec: \<^verbatim>\<open>dvid.EncodingBinary\<close> is declared in code that is not available.
  The payload descriptor has bit flags for auxiliary payload kinds, none set by default.
\<close>

definition EncodingBinary :: byte where
  "EncodingBinary = 0"

definition LittleEndian_PutUint32 :: "uint32 \<Rightarrow> bytes" where
  "LittleEndian_PutUint32 v =
     [ucast v, ucast (drop_bit 8 v), ucast (drop_bit 16 v), ucast (drop_bit 24 v)]"

text \<open>
  The key of a spatial index entry, as \<^verbatim>\<open>StoreKeyLabelSpatialMap\<close> lays it out: the tag,
  the label in big-endian, the block coordinate.
\<close>

definition NewLabelSpatialMapIndex :: "byte \<Rightarrow> uint64 \<Rightarrow> bytes \<Rightarrow> key" where
  "NewLabelSpatialMapIndex tag label zyx = tag # BigEndian_PutUint64 label @ zyx"

record sparseOp =
  encoding :: bytes
  numBlocks :: uint32
  numRuns :: uint32

text \<open>The callback given to \<^verbatim>\<open>ProcessRange\<close> (source lines 259 to 265).\<close>

definition sparse_chunk :: "bytes \<Rightarrow> sparseOp \<Rightarrow> sparseOp" where
  "sparse_chunk v op =
     op\<lparr>numBlocks := numBlocks op + 1,
        encoding := encoding op @ v,
        numRuns := numRuns op + of_nat (length v div 16)\<rparr>"

definition sparse_header :: bytes where
  "sparse_header =
     [EncodingBinary, 3, 0, 0] @ LittleEndian_PutUint32 0 @ LittleEndian_PutUint32 0"

definition GetSparseVol :: "small_env \<Rightarrow> uint64 \<Rightarrow> bytes option \<times> string option" where
  "GetSparseVol env label =
     (case SmallDataStore_err env of
        Some err \<Rightarrow> (None, Some (''Cannot get datastore that handles big data: '' @ err @ nl))
      | None \<Rightarrow>
          (let buf = sparse_header;
               begIndex = NewLabelSpatialMapIndex (tag_LabelSpatialMap env) label (MinIndexZYX env);
               endIndex = NewLabelSpatialMapIndex (tag_LabelSpatialMap env) label (MaxIndexZYX env);
               op = \<lparr>encoding = buf, numBlocks = 0, numRuns = 0\<rparr>
           in case ProcessRange env begIndex endIndex sparse_chunk op of
                Inl err \<Rightarrow> (None, Some err)
              | Inr op' \<Rightarrow>
                  (Some (take 8 (encoding op') @ LittleEndian_PutUint32 (numRuns op')
                         @ drop 12 (encoding op')),
                   None)))"

section \<open>GetSizeRange\<close>

text \<open>The loop that decodes each key of the range (source lines 367 to 373).\<close>

fun decode_labels :: "byte \<Rightarrow> key list \<Rightarrow> string + uint64 list" where
  "decode_labels tag [] = Inr []"
| "decode_labels tag (k # ks) =
     (case LabelFromLabelSizesKey tag k of
        Inl err \<Rightarrow> Inl err
      | Inr label \<Rightarrow>
          (case decode_labels tag ks of
             Inl err \<Rightarrow> Inl err
           | Inr labels \<Rightarrow> Inr (label # labels)))"

text \<open>\<^verbatim>\<open>json.Marshal\<close> of a slice of unsigned integers that is not nil.\<close>

fun join_commas :: "string list \<Rightarrow> string" where
  "join_commas [] = []"
| "join_commas [x] = x"
| "join_commas (x # y # ys) = x @ '','' @ join_commas (y # ys)"

definition json_Marshal :: "uint64 list \<Rightarrow> string" where
  "json_Marshal labels = ''['' @ join_commas (map (\<lambda>l. decimal (unat l)) labels) @ '']''"

definition MaxUint64 :: uint64 where
  "MaxUint64 = - 1"

definition GetSizeRange :: "small_env \<Rightarrow> uint64 \<Rightarrow> uint64 \<Rightarrow> string \<times> string option" where
  "GetSizeRange env minSize maxSize =
     (case SmallDataStore_err env of
        Some err \<Rightarrow> (''{}'', Some err)
      | None \<Rightarrow>
          (let firstKey = NewLabelSizesIndex (tag_LabelSizes env) minSize 0;
               upperBound = (if maxSize \<noteq> 0 then maxSize else MaxUint64);
               lastKey = NewLabelSizesIndex (tag_LabelSizes env) upperBound MaxUint64
           in case KeysInRange env firstKey lastKey of
                Inl err \<Rightarrow> (''{}'', Some err)
              | Inr keys \<Rightarrow>
                  (case decode_labels (tag_LabelSizes env) keys of
                     Inl err \<Rightarrow> (''{}'', Some err)
                   | Inr labels \<Rightarrow> (json_Marshal labels, None))))"

section \<open>Notions used in the statements\<close>

subsection \<open>Counters of the size computer\<close>

text \<open>
  What holds of the counters while \<^verbatim>\<open>ComputeSizes\<close> is in its loop, and what holds of them
  at any point, the sentinel branch included.
\<close>

definition sizes_running :: "sizes_state \<Rightarrow> bool" where
  "sizes_running s \<longleftrightarrow>
     commits_mid s = putsInBatch s div BATCH_SIZE \<and> commits_end s = 0 \<and>
     length (puts s) = putsInBatch s \<and> length (batch s) = putsInBatch s mod BATCH_SIZE \<and>
     wg_done s = 0"

definition sizes_counted :: "sizes_state \<Rightarrow> bool" where
  "sizes_counted s \<longleftrightarrow>
     commits_mid s = putsInBatch s div BATCH_SIZE \<and> commits_end s \<le> 1 \<and>
     length (puts s) = putsInBatch s + commits_end s \<and> length (batch s) \<le> BATCH_SIZE \<and>
     wg_done s = 0"

subsection \<open>Entries matched by a sparse volume query\<close>

text \<open>The values that the range read of \<^verbatim>\<open>GetSparseVol\<close> matches for a label, in scan order.\<close>

definition sparse_entries :: "small_env \<Rightarrow> uint64 \<Rightarrow> bytes list" where
  "sparse_entries env label =
     map snd (store_range (small_kvs env)
       (NewLabelSpatialMapIndex (tag_LabelSpatialMap env) label (MinIndexZYX env))
       (NewLabelSpatialMapIndex (tag_LabelSpatialMap env) label (MaxIndexZYX env)))"

subsection \<open>What a size range query is to return\<close>

text \<open>
  The voxel count and the label that a size index key holds, the test that a key has the
  layout of a size index key, and the (count, label) pairs stored in the size index.
\<close>

definition LabelSizesKey_parts :: "key \<Rightarrow> uint64 \<times> uint64" where
  "LabelSizesKey_parts k = (BigEndian_Uint64 (drop 1 k), BigEndian_Uint64 (drop 9 k))"

definition is_LabelSizesKey :: "byte \<Rightarrow> key \<Rightarrow> bool" where
  "is_LabelSizesKey tag k \<longleftrightarrow> length k = 17 \<and> hd k = tag"

definition stored_sizes :: "small_env \<Rightarrow> (uint64 \<times> uint64) list" where
  "stored_sizes env =
     map LabelSizesKey_parts
       (filter (is_LabelSizesKey (tag_LabelSizes env)) (map fst (small_kvs env)))"

text \<open>
  Following the words of the spec: the labels whose stored voxel count lies between the
  minimum and the maximum, both included, a maximum of 0 standing for no upper bound,
  ascending by (count, label).
\<close>

definition count_in_range :: "uint64 \<Rightarrow> uint64 \<Rightarrow> uint64 \<times> uint64 \<Rightarrow> bool" where
  "count_in_range minSize maxSize cl \<longleftrightarrow>
     minSize \<le> fst cl \<and> fst cl \<le> (if maxSize \<noteq> 0 then maxSize else MaxUint64)"

definition labels_in_range :: "small_env \<Rightarrow> uint64 \<Rightarrow> uint64 \<Rightarrow> uint64 list" where
  "labels_in_range env minSize maxSize =
     map snd (sort (filter (count_in_range minSize maxSize) (stored_sizes env)))"

subsection \<open>Digits of a big-endian number\<close>

text \<open>The \<open>k\<close> low base-256 digits of a number, most significant first.\<close>

fun be_digits :: "nat \<Rightarrow> nat \<Rightarrow> nat list" where
  "be_digits 0 n = []"
| "be_digits (Suc k) n = (n div 256 ^ k) mod 256 # be_digits k n"

section \<open>Reference collaborators for concrete runs\<close>

text \<open>
  Modelled from the spec: the RLE codec of package \<^verbatim>\<open>dvid\<close> is in code that is not available.
  A run is three start coordinates and a length, each a 32-bit little-endian integer, so a
  run record has 16 bytes; decoding fails when bytes remain after the last whole record;
  \<^verbatim>\<open>Stats\<close> returns the sum of the run lengths and the number of runs.
\<close>

type_synonym RLE = "uint32 \<times> uint32 \<times> uint32 \<times> uint32"

fun LittleEndian_Uint32 :: "bytes \<Rightarrow> uint32" where
  "LittleEndian_Uint32 (b0 # b1 # b2 # b3 # _) =
     (ucast b0 OR push_bit 8 (ucast b1) OR push_bit 16 (ucast b2) OR push_bit 24 (ucast b3))"
| "LittleEndian_Uint32 _ = 0"

fun runs_of :: "nat \<Rightarrow> bytes \<Rightarrow> RLE list" where
  "runs_of 0 bs = []"
| "runs_of (Suc n) bs =
     (LittleEndian_Uint32 bs, LittleEndian_Uint32 (drop 4 bs), LittleEndian_Uint32 (drop 8 bs),
      LittleEndian_Uint32 (drop 12 bs)) # runs_of n (drop 16 bs)"

definition RLEs_UnmarshalBinary :: "bytes \<Rightarrow> string + RLE list" where
  "RLEs_UnmarshalBinary bs =
     (if length bs mod 16 \<noteq> 0 then Inl ''cannot parse RLEs: trailing bytes''
      else Inr (runs_of (length bs div 16) bs))"

definition RLEs_Stats :: "RLE list \<Rightarrow> int \<times> int" where
  "RLEs_Stats rles = (sum_list (map (\<lambda>(x, y, z, n). sint n) rles), int (length rles))"

text \<open>
  A size computer over that codec and a batching store; the commits whose number is in
  \<open>failing\<close> fail.
\<close>

definition ref_sizes_env :: "nat list \<Rightarrow> RLE list sizes_env" where
  "ref_sizes_env failing =
     \<lparr>is_batcher = True, UnmarshalBinary = RLEs_UnmarshalBinary, Stats = RLEs_Stats,
      Commit_err = (\<lambda>n b. if n \<in> set failing then Some ''write failed'' else None),
      KeyLabelSizes = 6\<rparr>"

text \<open>
  A surface computer whose sparse volume is a label with the runs added so far, over a
  store that takes every put and a handler pool that takes the permit; the stored blob is
  a stand-in made of the label and the number of runs.
\<close>

definition ref_surface_env :: "(uint64 \<times> RLE list) surface_env" where
  "ref_surface_env =
     \<lparr>vol_zero = (0, []),
      vol_Clear = (\<lambda>v. (0, [])),
      vol_SetLabel = (\<lambda>v l. (l, snd v)),
      vol_Label = fst,
      vol_AddRLEs = (\<lambda>v bs. case RLEs_UnmarshalBinary bs of
                               Inl err \<Rightarrow> Inl err
                             | Inr rles \<Rightarrow> Inr (fst v, snd v @ rles)),
      vol_SurfaceSerialization = (\<lambda>v. Inr (BigEndian_PutUint64 (fst v) @ [of_nat (length (snd v))])),
      BigDataStore_err = None,
      SerializeData = Inr,
      Put_err = (\<lambda>n k v. None),
      KeyLabelSurface = 5,
      HandlerToken_room = True\<rparr>"

text \<open>The same surface computer when the handler pool does not take the permit.\<close>

definition full_pool_surface_env :: "(uint64 \<times> RLE list) surface_env" where
  "full_pool_surface_env = ref_surface_env\<lparr>HandlerToken_room := False\<rparr>"

text \<open>One run of the given length starting at the origin, as 16 bytes.\<close>

definition run_bytes :: "byte \<Rightarrow> bytes" where
  "run_bytes n = [0, 0, 0, 0, 0, 0, 0, 0, 0, 0, 0, 0, n, 0, 0, 0]"

definition mk_chunk :: "uint64 \<Rightarrow> bytes \<Rightarrow> Chunk option" where
  "mk_chunk label v = Some \<lparr>chunk_Op = OpUint64 label, chunk_V = v\<rparr>"

text \<open>A stream of \<open>n\<close> chunks with the labels 1 to \<open>n\<close>, each holding one run of two voxels.\<close>

definition label_chunk :: "nat \<Rightarrow> Chunk option" where
  "label_chunk i = mk_chunk (of_nat i) (run_bytes 2)"

definition label_stream :: "nat \<Rightarrow> channel" where
  "label_stream n = map label_chunk [1..<Suc n]"

text \<open>The size index entry that the reference size computer puts for a label of that stream.\<close>

definition label_entry :: "nat \<Rightarrow> key \<times> bytes" where
  "label_entry i = (NewLabelSizesIndex 6 2 (of_nat i), EmptyValue)"

text \<open>A big data store that holds no surface.\<close>

definition ref_lookup_env :: lookup_env where
  "ref_lookup_env =
     \<lparr>lookup_BigDataStore_err = None, lookup_Get = (\<lambda>k. Inr None),
      DeserializeData = (\<lambda>d u. Inr d), lookup_KeyLabelSurface = 5\<rparr>"

text \<open>The size index entries of the labels 1 to \<open>n\<close> of that stream, in stream order.\<close>

definition label_entries :: "nat \<Rightarrow> (key \<times> bytes) list" where
  "label_entries n = map label_entry [1..<Suc n]"

text \<open>
  The state of the reference size computer after the first \<open>n + 1\<close> chunks of that stream,
  while no commit has been due.
\<close>

definition label_state :: "nat \<Rightarrow> sizes_state" where
  "label_state n =
     \<lparr>curLabel = of_nat (Suc n), curSize = 2, putsInBatch = n, notFirst = True,
      batch = label_entries n, puts = label_entries n, committed = [], commits_mid = 0,
      commits_end = 0, logged = [], wg_done = 0\<rparr>"

text \<open>
  A small data store with spatial index entries of the labels 1 and 2 and with the size index
  entries of three labels, and one whose spatial index entries of label 1 are half records.
\<close>

definition ref_small_env :: small_env where
  "ref_small_env =
     \<lparr>SmallDataStore_err = None,
      small_kvs =
        [(NewLabelSpatialMapIndex 4 1 [0, 0, 1], run_bytes 5),
         (NewLabelSizesIndex 6 5 11, EmptyValue),
         (NewLabelSpatialMapIndex 4 2 [0, 0, 0], run_bytes 9),
         (NewLabelSizesIndex 6 3 12, EmptyValue),
         (NewLabelSpatialMapIndex 4 1 [0, 0, 0], run_bytes 3 @ run_bytes 4),
         (NewLabelSizesIndex 6 9 13, EmptyValue)],
      range_err = None, tag_LabelSizes = 6, tag_LabelSpatialMap = 4,
      MinIndexZYX = [0, 0, 0], MaxIndexZYX = [255, 255, 255]\<rparr>"

definition ragged_small_env :: small_env where
  "ragged_small_env =
     \<lparr>SmallDataStore_err = None,
      small_kvs =
        [(NewLabelSpatialMapIndex 4 1 [0, 0, 0], [1, 0, 0, 0, 0, 0, 0, 0]),
         (NewLabelSpatialMapIndex 4 1 [0, 0, 1], [2, 0, 0, 0, 1, 0, 0, 0])],
      range_err = None, tag_LabelSizes = 6, tag_LabelSpatialMap = 4,
      MinIndexZYX = [0, 0, 0], MaxIndexZYX = [255, 255, 255]\<rparr>"

section \<open>Properties\<close>

subsection \<open>The deferred calls of ComputeSurface\<close>

lemma store_Put_counters:
  "surf_wg_done (snd (store_Put env s k v)) = surf_wg_done s \<and>
   handler_tokens (snd (store_Put env s k v)) = handler_tokens s \<and>
   send_blocked (snd (store_Put env s k v)) = send_blocked s"
  by (simp add: store_Put_def split: option.splits)

lemma computeAndSaveSurface_counters:
  "surf_wg_done (snd (computeAndSaveSurface env s vol)) = surf_wg_done s \<and>
   handler_tokens (snd (computeAndSaveSurface env s vol)) = handler_tokens s \<and>
   send_blocked (snd (computeAndSaveSurface env s vol)) = send_blocked s"
  by (simp add: computeAndSaveSurface_def Let_def store_Put_counters split: sum.splits option.splits)

lemma ComputeSurface_save_counters:
  "surf_wg_done (snd (ComputeSurface_save env s)) = surf_wg_done s \<and>
   handler_tokens (snd (ComputeSurface_save env s)) = handler_tokens s \<and>
   send_blocked (snd (ComputeSurface_save env s)) = send_blocked s"
proof -
  obtain e s1 where save: "computeAndSaveSurface env s (curVol s) = (e, s1)"
    by (cases "computeAndSaveSurface env s (curVol s)")
  have "surf_wg_done s1 = surf_wg_done s \<and> handler_tokens s1 = handler_tokens s \<and>
      send_blocked s1 = send_blocked s"
    using computeAndSaveSurface_counters [of env s "curVol s"] save by simp
  then show ?thesis
    using save by (simp add: ComputeSurface_save_def surface_Infof_def split: option.splits)
qed

lemma ComputeSurface_boundary_counters:
  "surf_wg_done (snd (ComputeSurface_boundary env l s)) = surf_wg_done s \<and>
   handler_tokens (snd (ComputeSurface_boundary env l s)) = handler_tokens s \<and>
   send_blocked (snd (ComputeSurface_boundary env l s)) = send_blocked s"
  by (simp add: ComputeSurface_boundary_def Let_def ComputeSurface_save_counters)

lemma ComputeSurface_chunk_counters:
  "surf_wg_done (snd (ComputeSurface_chunk env c s)) = surf_wg_done s \<and>
   handler_tokens (snd (ComputeSurface_chunk env c s)) = handler_tokens s \<and>
   send_blocked (snd (ComputeSurface_chunk env c s)) = send_blocked s"
proof (cases "chunk_Op c")
  case OpOther
  then show ?thesis by (simp add: ComputeSurface_chunk_def)
next
  case (OpUint64 label)
  obtain b s2 where bd: "ComputeSurface_boundary env label s = (b, s2)"
    by (cases "ComputeSurface_boundary env label s")
  have keep: "surf_wg_done s2 = surf_wg_done s \<and> handler_tokens s2 = handler_tokens s \<and>
      send_blocked s2 = send_blocked s"
    using ComputeSurface_boundary_counters [of env label s] bd by simp
  show ?thesis
  proof (cases "vol_AddRLEs env (curVol s2) (chunk_V c)")
    case (Inl err)
    then show ?thesis using OpUint64 bd keep
      by (simp add: ComputeSurface_chunk_def surface_Infof_def)
  next
    case (Inr vol)
    then show ?thesis using OpUint64 bd keep
      by (simp add: ComputeSurface_chunk_def)
  qed
qed

lemma ComputeSurface_chunk_exit:
  "ComputeSurface_chunk env c s = (Some ex, s') \<Longrightarrow> ex \<noteq> Blocked"
  by (auto simp add: ComputeSurface_chunk_def Let_def split: op.splits sum.splits if_splits)

lemma ComputeSurface_loop_counters:
  "surf_wg_done (snd (ComputeSurface_loop env ch s)) = surf_wg_done s \<and>
   handler_tokens (snd (ComputeSurface_loop env ch s)) = handler_tokens s \<and>
   send_blocked (snd (ComputeSurface_loop env ch s)) = send_blocked s"
proof (induction ch arbitrary: s)
  case Nil
  show ?case by simp
next
  case (Cons x ch)
  show ?case
  proof (cases x)
    case None
    then show ?thesis using ComputeSurface_save_counters [of env s] by simp
  next
    case (Some c)
    obtain r s' where step: "ComputeSurface_chunk env c s = (r, s')"
      by (cases "ComputeSurface_chunk env c s")
    have keep: "surf_wg_done s' = surf_wg_done s \<and> handler_tokens s' = handler_tokens s \<and>
      send_blocked s' = send_blocked s"
      using ComputeSurface_chunk_counters [of env c s] step by simp
    show ?thesis
    proof (cases r)
      case None
      then show ?thesis using Some step keep Cons.IH [of s'] by simp
    next
      case (Some ex)
      then show ?thesis using \<open>x = Some c\<close> step keep by simp
    qed
  qed
qed

lemma ComputeSurface_loop_sentinel:
  "None \<in> set ch \<Longrightarrow> fst (ComputeSurface_loop env ch s) \<noteq> Blocked"
proof (induction ch arbitrary: s)
  case Nil
  then show ?case by simp
next
  case (Cons x ch)
  show ?case
  proof (cases x)
    case None
    then show ?thesis by simp
  next
    case (Some c)
    then have mem: "None \<in> set ch" using Cons.prems by simp
    obtain r s' where step: "ComputeSurface_chunk env c s = (r, s')"
      by (cases "ComputeSurface_chunk env c s")
    show ?thesis
    proof (cases r)
      case None
      then show ?thesis using Some step Cons.IH [OF mem, of s'] by simp
    next
      case (Some ex)
      then show ?thesis using \<open>x = Some c\<close> step ComputeSurface_chunk_exit [of env c s ex s'] by simp
    qed
  qed
qed

text \<open>
  Claim C9, as the code has it. Whenever \<^verbatim>\<open>ComputeSurface\<close> leaves its loop, by the
  sentinel, by an error of \<^verbatim>\<open>AddRLEs\<close>, by an error of computing or storing a surface, or
  by a panic, the deferred closure calls \<^verbatim>\<open>wg.Done\<close> exactly once and then sends the
  permit: when the handler pool takes the send, exactly one permit is released and the
  function ends; when it does not, no permit is released and the function stays blocked
  in the send, the completion counter having been signalled. While the function is blocked
  on the receive it has done neither, and a channel that holds the sentinel never leaves it
  blocked on the receive.
\<close>

theorem ComputeSurface_deferred:
  "(fst (ComputeSurface env ch) \<noteq> Blocked \<and> HandlerToken_room env \<longrightarrow>
      surf_wg_done (snd (ComputeSurface env ch)) = 1 \<and>
      handler_tokens (snd (ComputeSurface env ch)) = 1 \<and>
      \<not> send_blocked (snd (ComputeSurface env ch))) \<and>
   (fst (ComputeSurface env ch) \<noteq> Blocked \<and> \<not> HandlerToken_room env \<longrightarrow>
      surf_wg_done (snd (ComputeSurface env ch)) = 1 \<and>
      handler_tokens (snd (ComputeSurface env ch)) = 0 \<and>
      send_blocked (snd (ComputeSurface env ch))) \<and>
   (fst (ComputeSurface env ch) = Blocked \<longrightarrow>
      surf_wg_done (snd (ComputeSurface env ch)) = 0 \<and>
      handler_tokens (snd (ComputeSurface env ch)) = 0 \<and>
      \<not> send_blocked (snd (ComputeSurface env ch))) \<and>
   (None \<in> set ch \<longrightarrow> fst (ComputeSurface env ch) \<noteq> Blocked)"
proof -
  obtain ex s where run: "ComputeSurface_loop env ch (surface_init env) = (ex, s)"
    by (cases "ComputeSurface_loop env ch (surface_init env)")
  have zero: "surf_wg_done s = 0 \<and> handler_tokens s = 0 \<and> \<not> send_blocked s"
    using ComputeSurface_loop_counters [of env ch "surface_init env"] run
    by (simp add: surface_init_def)
  have sentinel: "None \<in> set ch \<Longrightarrow> ex \<noteq> Blocked"
    using ComputeSurface_loop_sentinel [of ch env "surface_init env"] run by simp
  show ?thesis
    using run zero sentinel
    by (cases ex) (auto simp add: ComputeSurface_def ComputeSurface_deferred_calls_def Let_def)
qed

theorem ComputeSurface_deferred_witness:
  "surf_wg_done (snd (ComputeSurface ref_surface_env [mk_chunk 7 (run_bytes 1), None])) = 1 \<and>
   handler_tokens (snd (ComputeSurface ref_surface_env [mk_chunk 7 (run_bytes 1), None])) = 1 \<and>
   \<not> send_blocked (snd (ComputeSurface ref_surface_env [mk_chunk 7 (run_bytes 1), None])) \<and>
   surf_wg_done (snd (ComputeSurface full_pool_surface_env [mk_chunk 7 (run_bytes 1), None])) = 1 \<and>
   handler_tokens (snd (ComputeSurface full_pool_surface_env [mk_chunk 7 (run_bytes 1), None])) = 0 \<and>
   send_blocked (snd (ComputeSurface full_pool_surface_env [mk_chunk 7 (run_bytes 1), None]))"
proof -
  have sentinel: "None \<in> set [mk_chunk 7 (run_bytes 1), None]" by simp
  have room: "HandlerToken_room ref_surface_env" by (simp add: ref_surface_env_def)
  have full: "\<not> HandlerToken_room full_pool_surface_env"
    by (simp add: full_pool_surface_env_def)
  show ?thesis
    using ComputeSurface_deferred [of ref_surface_env "[mk_chunk 7 (run_bytes 1), None]"]
      ComputeSurface_deferred [of full_pool_surface_env "[mk_chunk 7 (run_bytes 1), None]"]
      sentinel room full
    by blast
qed

theorem ComputeSurface_deferred_counterexample:
  "fst (ComputeSurface full_pool_surface_env [None]) = Returned \<and>
   surf_wg_done (snd (ComputeSurface full_pool_surface_env [None])) = 1 \<and>
   handler_tokens (snd (ComputeSurface full_pool_surface_env [None])) = 0 \<and>
   send_blocked (snd (ComputeSurface full_pool_surface_env [None]))"
  by (simp add: ComputeSurface_def ComputeSurface_deferred_calls_def ComputeSurface_save_def
      surface_init_def full_pool_surface_env_def ref_surface_env_def Let_def)

subsection \<open>Streams and label boundaries\<close>

text \<open>
  Claim C1. On a stream that holds only the sentinel, \<^verbatim>\<open>ComputeSurface\<close> hands no volume
  to \<^verbatim>\<open>computeAndSaveSurface\<close> and stores nothing, but \<^verbatim>\<open>ComputeSizes\<close> puts the size
  index entry of size 0 and label 0 and commits it: its sentinel branch is not guarded by
  \<^verbatim>\<open>notFirst\<close>.
\<close>

theorem sentinel_only_stream:
  assumes "is_batcher env"
  shows "fst (ComputeSizes env [None]) = Returned \<and>
         puts (snd (ComputeSizes env [None])) =
           [(NewLabelSizesIndex (KeyLabelSizes env) 0 0, EmptyValue)] \<and>
         commits_end (snd (ComputeSizes env [None])) = 1 \<and>
         (Commit_err env 0 [(NewLabelSizesIndex (KeyLabelSizes env) 0 0, EmptyValue)] = None \<longrightarrow>
            committed (snd (ComputeSizes env [None])) =
              [(NewLabelSizesIndex (KeyLabelSizes env) 0 0, EmptyValue)]) \<and>
         fst (ComputeSurface senv [None]) = Returned \<and>
         finalized (snd (ComputeSurface senv [None])) = [] \<and>
         stored (snd (ComputeSurface senv [None])) = []"
  using assms
  by (simp add: ComputeSizes_def ComputeSizes_nil_def batch_Put_def batch_Commit_def
      sizes_Infof_def sizes_init_def Let_def ComputeSurface_def ComputeSurface_deferred_calls_def
      ComputeSurface_save_def surface_init_def split: option.splits)

theorem sentinel_only_stream_witness:
  "puts (snd (ComputeSizes (ref_sizes_env []) [None])) = [(NewLabelSizesIndex 6 0 0, EmptyValue)] \<and>
   committed (snd (ComputeSizes (ref_sizes_env []) [None])) = [(NewLabelSizesIndex 6 0 0, EmptyValue)] \<and>
   finalized (snd (ComputeSurface ref_surface_env [None])) = []"
proof -
  have b: "is_batcher (ref_sizes_env [])" by (simp add: ref_sizes_env_def)
  show ?thesis
    using sentinel_only_stream [OF b, of ref_surface_env]
    by (simp add: ref_sizes_env_def)
qed

lemmas sizes_defs = ComputeSizes_def ComputeSizes_chunk_def ComputeSizes_store_def
  ComputeSizes_nil_def batch_Put_def batch_Commit_def sizes_Infof_def sizes_init_def
  BATCH_SIZE_def mk_chunk_def Let_def

lemmas surface_defs = ComputeSurface_def ComputeSurface_deferred_calls_def
  ComputeSurface_chunk_def ComputeSurface_boundary_def
  ComputeSurface_save_def computeAndSaveSurface_def store_Put_def surface_Infof_def
  surface_init_def mk_chunk_def Let_def

text \<open>
  Claim C2. Two chunks of label 0 followed by the sentinel: \<^verbatim>\<open>ComputeSurface\<close> treats the
  second chunk as a boundary and hands two volumes to \<^verbatim>\<open>computeAndSaveSurface\<close>, one per
  chunk, but \<^verbatim>\<open>ComputeSizes\<close> tests only \<^verbatim>\<open>label != curLabel\<close>: it adds the two chunks
  up and puts a single size index entry, at the sentinel.
\<close>

theorem repeated_zero_label:
  assumes "is_batcher env"
    and "UnmarshalBinary env c1 = Inr r1"
    and "UnmarshalBinary env c2 = Inr r2"
    and "vol_AddRLEs senv (vol_SetLabel senv (vol_Clear senv (vol_zero senv)) 0) c1 = Inr a1"
    and "vol_SurfaceSerialization senv a1 = Inr b1"
    and "BigDataStore_err senv = None"
    and "SerializeData senv b1 = Inr z1"
    and "Put_err senv 0 (NewLabelSurfaceIndex (KeyLabelSurface senv) (vol_Label senv a1)) z1 = None"
    and "vol_AddRLEs senv (vol_SetLabel senv (vol_Clear senv a1) 0) c2 = Inr a2"
  shows "puts (snd (ComputeSizes env [mk_chunk 0 c1, mk_chunk 0 c2, None])) =
           [(NewLabelSizesIndex (KeyLabelSizes env)
               (word_of_int (fst (Stats env r1)) + word_of_int (fst (Stats env r2))) 0,
             EmptyValue)] \<and>
         finalized (snd (ComputeSurface senv [mk_chunk 0 c1, mk_chunk 0 c2, None])) = [a1, a2]"
proof -
  have sizes: "puts (snd (ComputeSizes env [mk_chunk 0 c1, mk_chunk 0 c2, None])) =
           [(NewLabelSizesIndex (KeyLabelSizes env)
               (word_of_int (fst (Stats env r1)) + word_of_int (fst (Stats env r2))) 0,
             EmptyValue)]"
    using assms(1-3) by (simp add: sizes_defs split: option.splits)
  have surface: "finalized (snd (ComputeSurface senv [mk_chunk 0 c1, mk_chunk 0 c2, None])) = [a1, a2]"
    using assms(4-9) by (simp add: surface_defs split: option.splits sum.splits)
  show ?thesis using sizes surface by simp
qed

text \<open>
  Claim C5. On the stream of two chunks of a label \<open>L1\<close>, two chunks of another label
  \<open>L2\<close>, both labels not 0, and the sentinel, in a run where the chunks decode and the
  first surface is stored, each consumer finalizes exactly twice, in stream order:
  \<^verbatim>\<open>ComputeSizes\<close> puts the entry of \<open>L1\<close> with the voxels of the first two chunks and then
  the entry of \<open>L2\<close> with the voxels of the last two; \<^verbatim>\<open>ComputeSurface\<close> hands over the
  volume built from the first two chunks and then the volume built from the last two.
\<close>

theorem two_label_groups:
  assumes "L1 \<noteq> L2" and "L1 \<noteq> 0" and "L2 \<noteq> 0"
    and "is_batcher env"
    and "UnmarshalBinary env c1 = Inr r1"
    and "UnmarshalBinary env c2 = Inr r2"
    and "UnmarshalBinary env c3 = Inr r3"
    and "UnmarshalBinary env c4 = Inr r4"
    and "vol_AddRLEs senv (vol_SetLabel senv (vol_Clear senv (vol_zero senv)) L1) c1 = Inr a1"
    and "vol_AddRLEs senv a1 c2 = Inr a2"
    and "vol_SurfaceSerialization senv a2 = Inr b2"
    and "BigDataStore_err senv = None"
    and "SerializeData senv b2 = Inr z2"
    and "Put_err senv 0 (NewLabelSurfaceIndex (KeyLabelSurface senv) (vol_Label senv a2)) z2 = None"
    and "vol_AddRLEs senv (vol_SetLabel senv (vol_Clear senv a2) L2) c3 = Inr a3"
    and "vol_AddRLEs senv a3 c4 = Inr a4"
  shows "fst (ComputeSizes env [mk_chunk L1 c1, mk_chunk L1 c2, mk_chunk L2 c3, mk_chunk L2 c4, None])
           = Returned \<and>
         puts (snd (ComputeSizes env
                 [mk_chunk L1 c1, mk_chunk L1 c2, mk_chunk L2 c3, mk_chunk L2 c4, None])) =
           [(NewLabelSizesIndex (KeyLabelSizes env)
               (word_of_int (fst (Stats env r1)) + word_of_int (fst (Stats env r2))) L1,
             EmptyValue),
            (NewLabelSizesIndex (KeyLabelSizes env)
               (word_of_int (fst (Stats env r3)) + word_of_int (fst (Stats env r4))) L2,
             EmptyValue)] \<and>
         fst (ComputeSurface senv
                 [mk_chunk L1 c1, mk_chunk L1 c2, mk_chunk L2 c3, mk_chunk L2 c4, None])
           = Returned \<and>
         finalized (snd (ComputeSurface senv
                 [mk_chunk L1 c1, mk_chunk L1 c2, mk_chunk L2 c3, mk_chunk L2 c4, None])) =
           [a2, a4]"
proof -
  let ?ch = "[mk_chunk L1 c1, mk_chunk L1 c2, mk_chunk L2 c3, mk_chunk L2 c4, None]"
  have neq: "L2 \<noteq> L1" using assms(1) by simp
  have sizes: "fst (ComputeSizes env ?ch) = Returned \<and>
         puts (snd (ComputeSizes env ?ch)) =
           [(NewLabelSizesIndex (KeyLabelSizes env)
               (word_of_int (fst (Stats env r1)) + word_of_int (fst (Stats env r2))) L1,
             EmptyValue),
            (NewLabelSizesIndex (KeyLabelSizes env)
               (word_of_int (fst (Stats env r3)) + word_of_int (fst (Stats env r4))) L2,
             EmptyValue)]"
    using neq assms(4-8) by (simp add: sizes_defs split: option.splits)
  have surface: "fst (ComputeSurface senv ?ch) = Returned \<and>
         finalized (snd (ComputeSurface senv ?ch)) = [a2, a4]"
    using neq assms(2,3) assms(9-16) by (simp add: surface_defs split: option.splits sum.splits)
  show ?thesis using sizes surface by simp
qed

text \<open>
  Claim C8. When the big data store is there and its \<^verbatim>\<open>Get\<close> answers with no error and no
  data, \<^verbatim>\<open>GetSurface\<close> returns the empty slice, the flag false and a nil error; and it
  returns an error exactly when the store is not available, when \<^verbatim>\<open>Get\<close> fails, or when
  the stored bytes do not deserialize.
\<close>

theorem GetSurface_not_found:
  "(lookup_BigDataStore_err env = None \<and>
    lookup_Get env (NewLabelSurfaceIndex (lookup_KeyLabelSurface env) label) = Inr None \<longrightarrow>
      GetSurface env label = (Some [], False, None)) \<and>
   (snd (snd (GetSurface env label)) \<noteq> None \<longleftrightarrow>
      lookup_BigDataStore_err env \<noteq> None \<or>
      (\<exists>e. lookup_Get env (NewLabelSurfaceIndex (lookup_KeyLabelSurface env) label) = Inl e) \<or>
      (\<exists>d e. lookup_Get env (NewLabelSurfaceIndex (lookup_KeyLabelSurface env) label) = Inr (Some d) \<and>
             DeserializeData env d False = Inl e))"
  by (auto simp add: GetSurface_def split: option.splits sum.splits)

lemma run_bytes_decode:
  "RLEs_UnmarshalBinary (run_bytes n) = Inr [(0, 0, 0, ucast n)]"
  by (simp add: RLEs_UnmarshalBinary_def run_bytes_def)

lemma ref_sizes_decode:
  "UnmarshalBinary (ref_sizes_env f) (run_bytes n) = Inr [(0, 0, 0, ucast n)]"
  by (simp add: ref_sizes_env_def run_bytes_decode)

lemma ref_sizes_batcher: "is_batcher (ref_sizes_env f)"
  by (simp add: ref_sizes_env_def)

lemma ref_sizes_stats:
  "fst (Stats (ref_sizes_env f) [(0, 0, 0, n)]) = sint n"
  by (simp add: ref_sizes_env_def RLEs_Stats_def)

lemma ref_surface_add:
  "vol_AddRLEs ref_surface_env v (run_bytes n) = Inr (fst v, snd v @ [(0, 0, 0, ucast n)])"
  by (simp add: ref_surface_env_def run_bytes_decode)

lemma ref_surface_ops:
  "vol_zero ref_surface_env = (0, [])"
  "vol_Clear ref_surface_env v = (0, [])"
  "vol_SetLabel ref_surface_env v l = (l, snd v)"
  "vol_Label ref_surface_env v = fst v"
  "vol_SurfaceSerialization ref_surface_env v =
     Inr (BigEndian_PutUint64 (fst v) @ [of_nat (length (snd v))])"
  "BigDataStore_err ref_surface_env = None"
  "SerializeData ref_surface_env b = Inr b"
  "Put_err ref_surface_env i k b = None"
  "KeyLabelSurface ref_surface_env = 5"
  "HandlerToken_room ref_surface_env"
  by (simp_all add: ref_surface_env_def)

theorem repeated_zero_label_witness:
  "puts (snd (ComputeSizes (ref_sizes_env []) [mk_chunk 0 (run_bytes 1), mk_chunk 0 (run_bytes 2), None])) =
     [(NewLabelSizesIndex 6 3 0, EmptyValue)] \<and>
   finalized (snd (ComputeSurface ref_surface_env
                     [mk_chunk 0 (run_bytes 1), mk_chunk 0 (run_bytes 2), None])) =
     [(0, [(0, 0, 0, 1)]), (0, [(0, 0, 0, 2)])]"
proof -
  have "puts (snd (ComputeSizes (ref_sizes_env []) [mk_chunk 0 (run_bytes 1), mk_chunk 0 (run_bytes 2), None])) =
           [(NewLabelSizesIndex (KeyLabelSizes (ref_sizes_env []))
               (word_of_int (fst (Stats (ref_sizes_env []) [(0, 0, 0, ucast (1::byte))])) +
                word_of_int (fst (Stats (ref_sizes_env []) [(0, 0, 0, ucast (2::byte))]))) 0,
             EmptyValue)] \<and>
         finalized (snd (ComputeSurface ref_surface_env [mk_chunk 0 (run_bytes 1), mk_chunk 0 (run_bytes 2), None])) =
           [(0, [(0, 0, 0, 1)]), (0, [(0, 0, 0, 2)])]"
    by (rule repeated_zero_label [where ?b1.0 = "BigEndian_PutUint64 0 @ [1]"
          and ?z1.0 = "BigEndian_PutUint64 0 @ [1]"])
       (simp_all add: ref_sizes_batcher ref_sizes_decode ref_surface_add ref_surface_ops)
  then show ?thesis
    by (simp add: ref_sizes_stats) (simp add: ref_sizes_env_def)
qed

theorem two_label_groups_witness:
  "puts (snd (ComputeSizes (ref_sizes_env [])
            [mk_chunk 7 (run_bytes 1), mk_chunk 7 (run_bytes 2),
             mk_chunk 9 (run_bytes 3), mk_chunk 9 (run_bytes 4), None])) =
     [(NewLabelSizesIndex 6 3 7, EmptyValue), (NewLabelSizesIndex 6 7 9, EmptyValue)] \<and>
   finalized (snd (ComputeSurface ref_surface_env
            [mk_chunk 7 (run_bytes 1), mk_chunk 7 (run_bytes 2),
             mk_chunk 9 (run_bytes 3), mk_chunk 9 (run_bytes 4), None])) =
     [(7, [(0, 0, 0, 1), (0, 0, 0, 2)]), (9, [(0, 0, 0, 3), (0, 0, 0, 4)])]"
proof -
  have "fst (ComputeSizes (ref_sizes_env []) [mk_chunk 7 (run_bytes 1), mk_chunk 7 (run_bytes 2),
             mk_chunk 9 (run_bytes 3), mk_chunk 9 (run_bytes 4), None]) = Returned \<and>
        puts (snd (ComputeSizes (ref_sizes_env []) [mk_chunk 7 (run_bytes 1), mk_chunk 7 (run_bytes 2),
             mk_chunk 9 (run_bytes 3), mk_chunk 9 (run_bytes 4), None])) =
           [(NewLabelSizesIndex (KeyLabelSizes (ref_sizes_env []))
               (word_of_int (fst (Stats (ref_sizes_env []) [(0, 0, 0, ucast (1::byte))])) +
                word_of_int (fst (Stats (ref_sizes_env []) [(0, 0, 0, ucast (2::byte))]))) 7,
             EmptyValue),
            (NewLabelSizesIndex (KeyLabelSizes (ref_sizes_env []))
               (word_of_int (fst (Stats (ref_sizes_env []) [(0, 0, 0, ucast (3::byte))])) +
                word_of_int (fst (Stats (ref_sizes_env []) [(0, 0, 0, ucast (4::byte))]))) 9,
             EmptyValue)] \<and>
        fst (ComputeSurface ref_surface_env [mk_chunk 7 (run_bytes 1), mk_chunk 7 (run_bytes 2),
             mk_chunk 9 (run_bytes 3), mk_chunk 9 (run_bytes 4), None]) = Returned \<and>
        finalized (snd (ComputeSurface ref_surface_env [mk_chunk 7 (run_bytes 1), mk_chunk 7 (run_bytes 2),
             mk_chunk 9 (run_bytes 3), mk_chunk 9 (run_bytes 4), None])) =
           [(7, [(0, 0, 0, 1), (0, 0, 0, 2)]), (9, [(0, 0, 0, 3), (0, 0, 0, 4)])]"
    by (rule two_label_groups [where ?a1.0 = "(7, [(0, 0, 0, 1)])"
          and ?a3.0 = "(9, [(0, 0, 0, 3)])"
          and ?b2.0 = "BigEndian_PutUint64 7 @ [2]" and ?z2.0 = "BigEndian_PutUint64 7 @ [2]"])
       (simp_all add: ref_sizes_batcher ref_sizes_decode ref_surface_add ref_surface_ops)
  then show ?thesis
    by (simp add: ref_sizes_stats) (simp add: ref_sizes_env_def)
qed

theorem GetSurface_not_found_witness:
  "GetSurface ref_lookup_env 7 = (Some [], False, None)"
  using GetSurface_not_found [of ref_lookup_env 7]
  by (simp add: ref_lookup_env_def)

subsection \<open>Counters along a run of the size computer\<close>

lemma ComputeSizes_loop_append:
  "ComputeSizes_loop env (pre @ rest) s =
     (case ComputeSizes_loop env pre s of
        (Blocked, s') \<Rightarrow> ComputeSizes_loop env rest s'
      | (Returned, s') \<Rightarrow> (Returned, s')
      | (Panicked, s') \<Rightarrow> (Panicked, s'))"
proof (induction pre arbitrary: s)
  case Nil
  show ?case by simp
next
  case (Cons x pre)
  show ?case
  proof (cases x)
    case None
    then show ?thesis by simp
  next
    case (Some c)
    obtain r s' where step: "ComputeSizes_chunk env c s = (r, s')"
      by (cases "ComputeSizes_chunk env c s")
    have leave: "r = Some ex \<Longrightarrow> ex \<noteq> Blocked" for ex
      using step
      by (auto simp add: ComputeSizes_chunk_def ComputeSizes_store_def Let_def
          split: op.splits sum.splits if_splits prod.splits option.splits)
    show ?thesis
    proof (cases r)
      case None
      then show ?thesis using Some step Cons.IH [of s'] by simp
    next
      case (Some ex)
      then show ?thesis using \<open>x = Some c\<close> step leave [of ex] by (cases ex) simp_all
    qed
  qed
qed

lemma ComputeSizes_loop_continue:
  "ComputeSizes_loop env pre s = (Blocked, s') \<Longrightarrow>
   ComputeSizes_loop env (pre @ rest) s = ComputeSizes_loop env rest s'"
  by (simp add: ComputeSizes_loop_append)

lemma batch_step_arith:
  fixes p :: nat
  shows "Suc p mod b = 0 \<Longrightarrow> Suc p div b = Suc (p div b)"
    and "Suc p mod b \<noteq> 0 \<Longrightarrow> Suc p div b = p div b"
    and "Suc p mod b \<noteq> 0 \<Longrightarrow> Suc (p mod b) = Suc p mod b"
    and "0 < b \<Longrightarrow> Suc (p mod b) \<le> b"
proof -
  show "Suc p mod b = 0 \<Longrightarrow> Suc p div b = Suc (p div b)" by (simp add: div_Suc)
  show "Suc p mod b \<noteq> 0 \<Longrightarrow> Suc p div b = p div b" by (simp add: div_Suc)
  show "Suc p mod b \<noteq> 0 \<Longrightarrow> Suc (p mod b) = Suc p mod b" by (simp add: mod_Suc split: if_splits)
  show "0 < b \<Longrightarrow> Suc (p mod b) \<le> b" by (simp add: Suc_leI)
qed

lemma sizes_running_counted: "sizes_running s \<Longrightarrow> sizes_counted s"
  by (simp add: sizes_running_def sizes_counted_def BATCH_SIZE_def)

lemma BATCH_SIZE_pos: "0 < BATCH_SIZE"
  by (simp add: BATCH_SIZE_def)

lemma ComputeSizes_store_running:
  assumes "sizes_running s" and "ComputeSizes_store env label s = (None, s')"
  shows "sizes_running s'"
proof (cases "notFirst s \<and> label \<noteq> curLabel s")
  case False
  then show ?thesis using assms by (auto simp add: ComputeSizes_store_def)
next
  case True
  show ?thesis
  proof (cases "Suc (putsInBatch s) mod BATCH_SIZE = 0")
    case full: True
    then show ?thesis using True assms
      by (auto simp add: ComputeSizes_store_def batch_Put_def batch_Commit_def Let_def
          sizes_running_def batch_step_arith(1) split: option.splits)
  next
    case part: False
    then show ?thesis using True assms
      by (auto simp add: ComputeSizes_store_def batch_Put_def Let_def
          sizes_running_def batch_step_arith(2,3))
  qed
qed

lemma ComputeSizes_store_counted:
  assumes "sizes_running s" and "ComputeSizes_store env label s = (Some ex, s')"
  shows "sizes_counted s'"
proof (cases "notFirst s \<and> label \<noteq> curLabel s")
  case False
  then show ?thesis using assms by (auto simp add: ComputeSizes_store_def)
next
  case True
  show ?thesis
  proof (cases "Suc (putsInBatch s) mod BATCH_SIZE = 0")
    case full: True
    then show ?thesis using True assms batch_step_arith(4) [OF BATCH_SIZE_pos, of "putsInBatch s"]
      by (auto simp add: ComputeSizes_store_def batch_Put_def batch_Commit_def Let_def
          sizes_running_def sizes_counted_def sizes_Infof_def batch_step_arith(1)
          split: option.splits)
  next
    case part: False
    then show ?thesis using True assms
      by (auto simp add: ComputeSizes_store_def batch_Put_def Let_def)
  qed
qed

lemma ComputeSizes_chunk_running:
  assumes "sizes_running s" and "ComputeSizes_chunk env c s = (None, s')"
  shows "sizes_running s'"
proof (cases "chunk_Op c")
  case OpOther
  then show ?thesis using assms by (simp add: ComputeSizes_chunk_def)
next
  case (OpUint64 label)
  show ?thesis
  proof (cases "UnmarshalBinary env (chunk_V c)")
    case (Inl err)
    then show ?thesis using OpUint64 assms by (simp add: ComputeSizes_chunk_def)
  next
    case (Inr rles)
    obtain r s1 where st: "ComputeSizes_store env label s = (r, s1)"
      by (cases "ComputeSizes_store env label s")
    show ?thesis
    proof (cases r)
      case None
      then have "sizes_running s1" using ComputeSizes_store_running assms(1) st by blast
      then show ?thesis using None OpUint64 Inr st assms(2)
        by (auto simp add: ComputeSizes_chunk_def Let_def sizes_running_def)
    next
      case (Some ex)
      then show ?thesis using OpUint64 Inr st assms(2)
        by (simp add: ComputeSizes_chunk_def Let_def)
    qed
  qed
qed

lemma ComputeSizes_chunk_counted:
  assumes "sizes_running s" and "ComputeSizes_chunk env c s = (Some ex, s')"
  shows "sizes_counted s'"
proof (cases "chunk_Op c")
  case OpOther
  then show ?thesis using assms sizes_running_counted by (auto simp add: ComputeSizes_chunk_def)
next
  case (OpUint64 label)
  show ?thesis
  proof (cases "UnmarshalBinary env (chunk_V c)")
    case (Inl err)
    then show ?thesis using OpUint64 assms sizes_running_counted [of s]
      by (auto simp add: ComputeSizes_chunk_def sizes_Infof_def sizes_counted_def)
  next
    case (Inr rles)
    obtain r s1 where st: "ComputeSizes_store env label s = (r, s1)"
      by (cases "ComputeSizes_store env label s")
    show ?thesis
    proof (cases r)
      case None
      then show ?thesis using OpUint64 Inr st assms(2)
        by (simp add: ComputeSizes_chunk_def Let_def)
    next
      case (Some ex1)
      then have "sizes_counted s1" using ComputeSizes_store_counted assms(1) st by blast
      then show ?thesis using Some OpUint64 Inr st assms(2)
        by (auto simp add: ComputeSizes_chunk_def Let_def)
    qed
  qed
qed

lemma ComputeSizes_nil_counted:
  assumes "sizes_running s"
  shows "sizes_counted (ComputeSizes_nil env s)"
  using assms batch_step_arith(4) [OF BATCH_SIZE_pos, of "putsInBatch s"]
  by (auto simp add: ComputeSizes_nil_def batch_Put_def batch_Commit_def Let_def
      sizes_running_def sizes_counted_def sizes_Infof_def split: option.splits)

lemma ComputeSizes_loop_counted:
  "sizes_running s \<Longrightarrow>
   sizes_counted (snd (ComputeSizes_loop env ch s)) \<and>
   (fst (ComputeSizes_loop env ch s) = Blocked \<longrightarrow> sizes_running (snd (ComputeSizes_loop env ch s)))"
proof (induction ch arbitrary: s)
  case Nil
  then show ?case using sizes_running_counted by simp
next
  case (Cons x ch)
  show ?case
  proof (cases x)
    case None
    then show ?thesis using Cons.prems ComputeSizes_nil_counted by simp
  next
    case (Some c)
    obtain r s' where step: "ComputeSizes_chunk env c s = (r, s')"
      by (cases "ComputeSizes_chunk env c s")
    show ?thesis
    proof (cases r)
      case None
      then have "sizes_running s'" using ComputeSizes_chunk_running Cons.prems step by blast
      then show ?thesis using None Some step Cons.IH [of s'] by simp
    next
      case (Some ex)
      then have cnt: "sizes_counted s'" using ComputeSizes_chunk_counted Cons.prems step by blast
      have "ex \<noteq> Blocked"
        using step Some
        by (auto simp add: ComputeSizes_chunk_def ComputeSizes_store_def Let_def
            split: op.splits sum.splits if_splits prod.splits option.splits)
      then show ?thesis using Some \<open>x = Some c\<close> step cnt by simp
    qed
  qed
qed

lemma sizes_init_running: "sizes_running sizes_init"
  by (simp add: sizes_running_def sizes_init_def)


subsection \<open>A long stream of distinct labels\<close>

lemma label_stream_Suc:
  "label_stream (Suc n) = label_stream n @ [label_chunk (Suc n)]"
  by (simp add: label_stream_def)

lemma label_entries_Suc:
  "label_entries (Suc n) = label_entries n @ [label_entry (Suc n)]"
  by (simp add: label_entries_def)

lemma label_entries_0: "label_entries 0 = []"
  by (simp add: label_entries_def)

lemma length_label_entries: "length (label_entries n) = n"
  by (simp add: label_entries_def)

lemma ref_sizes_fields:
  "KeyLabelSizes (ref_sizes_env f) = 6"
  "Commit_err (ref_sizes_env f) i b = (if i \<in> set f then Some ''write failed'' else None)"
  by (simp_all add: ref_sizes_env_def)

lemma label_chunk_first:
  "ComputeSizes_chunk (ref_sizes_env f) \<lparr>chunk_Op = OpUint64 (of_nat (Suc 0)), chunk_V = run_bytes 2\<rparr> sizes_init
     = (None, label_state 0)"
  by (simp add: ComputeSizes_chunk_def ComputeSizes_store_def ref_sizes_decode ref_sizes_stats
      sizes_init_def label_state_def label_entries_0 Let_def)

lemma label_chunk_next:
  assumes "Suc n < BATCH_SIZE"
  shows "ComputeSizes_chunk (ref_sizes_env f)
           \<lparr>chunk_Op = OpUint64 (of_nat (Suc (Suc n))), chunk_V = run_bytes 2\<rparr> (label_state n)
         = (None, label_state (Suc n))"
proof -
  have m: "Suc n mod BATCH_SIZE \<noteq> 0" using assms by simp
  show ?thesis
    using m
    by (simp add: ComputeSizes_chunk_def ComputeSizes_store_def ref_sizes_decode ref_sizes_stats
        ref_sizes_fields batch_Put_def label_state_def label_entries_Suc label_entry_def Let_def)
qed

lemma label_stream_run:
  "n < BATCH_SIZE \<Longrightarrow>
   ComputeSizes_loop (ref_sizes_env f) (label_stream (Suc n)) sizes_init = (Blocked, label_state n)"
proof (induction n)
  case 0
  show ?case
    using label_chunk_first [of f]
    by (simp add: label_stream_def label_chunk_def mk_chunk_def)
next
  case (Suc n)
  then have run: "ComputeSizes_loop (ref_sizes_env f) (label_stream (Suc n)) sizes_init
      = (Blocked, label_state n)" by simp
  have "ComputeSizes_loop (ref_sizes_env f) (label_stream (Suc (Suc n))) sizes_init
      = ComputeSizes_loop (ref_sizes_env f) [label_chunk (Suc (Suc n))] (label_state n)"
    using ComputeSizes_loop_continue [OF run, of "[label_chunk (Suc (Suc n))]"]
    by (simp add: label_stream_Suc [of "Suc n"])
  then show ?case
    using label_chunk_next [OF Suc.prems, of f]
    by (simp add: label_chunk_def mk_chunk_def)
qed

subsection \<open>Errors that end a run of the size computer\<close>

lemma ComputeSizes_loop_running:
  "ComputeSizes_loop env pre sizes_init = (Blocked, s) \<Longrightarrow> sizes_running s"
  using ComputeSizes_loop_counted [OF sizes_init_running, of env pre] by simp

lemma ComputeSizes_chunk_decode_error:
  assumes "chunk_Op c = OpUint64 label" and "UnmarshalBinary env (chunk_V c) = Inl err"
  shows "ComputeSizes_chunk env c s =
           (Some Returned, s\<lparr>logged := logged s @ [''Error deserializing RLEs: '' @ err @ nl]\<rparr>)"
  using assms by (simp add: ComputeSizes_chunk_def sizes_Infof_def)

lemma ComputeSizes_chunk_commit_fails:
  assumes "chunk_Op c = OpUint64 label" and "UnmarshalBinary env (chunk_V c) = Inr rles"
    and "notFirst s" and "label \<noteq> curLabel s"
    and "Suc (putsInBatch s) mod BATCH_SIZE = 0"
    and "Commit_err env (commits_mid s + commits_end s)
           (batch s @ [(NewLabelSizesIndex (KeyLabelSizes env) (curSize s) (curLabel s), EmptyValue)])
         = Some err"
  shows "ComputeSizes_chunk env c s =
           (Some Returned,
            s\<lparr>curSize := 0,
              putsInBatch := Suc (putsInBatch s),
              batch := batch s @ [(NewLabelSizesIndex (KeyLabelSizes env) (curSize s) (curLabel s), EmptyValue)],
              puts := puts s @ [(NewLabelSizesIndex (KeyLabelSizes env) (curSize s) (curLabel s), EmptyValue)],
              commits_mid := Suc (commits_mid s),
              logged := logged s @ [''Error on batch PUT of label sizes: '' @ err @ nl]\<rparr>)"
  using assms
  by (simp add: ComputeSizes_chunk_def ComputeSizes_store_def batch_Put_def batch_Commit_def
      sizes_Infof_def Let_def)

lemma ComputeSizes_exit_after:
  assumes "is_batcher env"
    and "ComputeSizes_loop env pre sizes_init = (Blocked, s)"
    and "ComputeSizes_chunk env c s = (Some Returned, s')"
  shows "ComputeSizes env (pre @ Some c # rest) = (Returned, s'\<lparr>wg_done := wg_done s' + 1\<rparr>)"
  using assms ComputeSizes_loop_continue [OF assms(2), of "Some c # rest"]
  by (simp add: ComputeSizes_def)

text \<open>
  Claim C10. When \<^verbatim>\<open>ComputeSizes\<close> has run through a prefix of the stream and the next
  chunk does not decode, it logs the error and returns at once: nothing is put for the
  label being accumulated, no commit is attempted, the entries made durable are those of
  the earlier commits, and the puts buffered in the open batch stay uncommitted.
\<close>

theorem decode_error_discards_batch:
  assumes "is_batcher env"
    and "ComputeSizes_loop env pre sizes_init = (Blocked, s)"
    and "chunk_Op c = OpUint64 label"
    and "UnmarshalBinary env (chunk_V c) = Inl err"
  shows "ComputeSizes env (pre @ Some c # rest) =
           (Returned,
            s\<lparr>logged := logged s @ [''Error deserializing RLEs: '' @ err @ nl], wg_done := 1\<rparr>) \<and>
         puts (snd (ComputeSizes env (pre @ Some c # rest))) = puts s \<and>
         batch (snd (ComputeSizes env (pre @ Some c # rest))) = batch s \<and>
         committed (snd (ComputeSizes env (pre @ Some c # rest))) = committed s \<and>
         commits_mid (snd (ComputeSizes env (pre @ Some c # rest))) = commits_mid s \<and>
         commits_end (snd (ComputeSizes env (pre @ Some c # rest))) = 0"
proof -
  have run: "sizes_running s" using ComputeSizes_loop_running assms(2) by blast
  have "ComputeSizes env (pre @ Some c # rest) =
          (Returned,
           (s\<lparr>logged := logged s @ [''Error deserializing RLEs: '' @ err @ nl]\<rparr>)
             \<lparr>wg_done := wg_done (s\<lparr>logged := logged s @ [''Error deserializing RLEs: '' @ err @ nl]\<rparr>) + 1\<rparr>)"
    using ComputeSizes_exit_after [OF assms(1,2) ComputeSizes_chunk_decode_error [OF assms(3,4)]] .
  then show ?thesis using run by (simp add: sizes_running_def)
qed

theorem decode_error_discards_batch_witness:
  "fst (ComputeSizes (ref_sizes_env [])
          [mk_chunk 7 (run_bytes 1), mk_chunk 8 (run_bytes 2), mk_chunk 9 [1, 2, 3], None]) = Returned \<and>
   batch (snd (ComputeSizes (ref_sizes_env [])
          [mk_chunk 7 (run_bytes 1), mk_chunk 8 (run_bytes 2), mk_chunk 9 [1, 2, 3], None])) =
     [(NewLabelSizesIndex 6 1 7, EmptyValue)] \<and>
   committed (snd (ComputeSizes (ref_sizes_env [])
          [mk_chunk 7 (run_bytes 1), mk_chunk 8 (run_bytes 2), mk_chunk 9 [1, 2, 3], None])) = []"
proof -
  let ?s = "\<lparr>curLabel = 8, curSize = 2, putsInBatch = 1, notFirst = True,
             batch = [(NewLabelSizesIndex 6 1 7, EmptyValue)],
             puts = [(NewLabelSizesIndex 6 1 7, EmptyValue)], committed = [], commits_mid = 0,
             commits_end = 0, logged = [], wg_done = 0\<rparr>"
  have pre: "ComputeSizes_loop (ref_sizes_env []) [mk_chunk 7 (run_bytes 1), mk_chunk 8 (run_bytes 2)]
               sizes_init = (Blocked, ?s)"
    by (simp add: ComputeSizes_chunk_def ComputeSizes_store_def batch_Put_def sizes_init_def
        BATCH_SIZE_def mk_chunk_def Let_def ref_sizes_decode ref_sizes_stats ref_sizes_fields)
  have op: "chunk_Op \<lparr>chunk_Op = OpUint64 9, chunk_V = [1, 2, 3]\<rparr> = OpUint64 9" by simp
  have bad: "UnmarshalBinary (ref_sizes_env []) (chunk_V \<lparr>chunk_Op = OpUint64 9, chunk_V = [1, 2, 3]\<rparr>)
               = Inl ''cannot parse RLEs: trailing bytes''"
    by (simp add: ref_sizes_env_def RLEs_UnmarshalBinary_def)
  show ?thesis
    using decode_error_discards_batch [OF ref_sizes_batcher pre op bad, of "[None]"]
    by (simp add: mk_chunk_def)
qed

lemma label_stream_full:
  "ComputeSizes_loop (ref_sizes_env f) (label_stream 10000) sizes_init = (Blocked, label_state 9999)"
  using label_stream_run [of 9999 f] by (simp add: BATCH_SIZE_def)

lemma label_entries_full:
  "label_entries 9999 @ [(NewLabelSizesIndex 6 2 10000, EmptyValue)] = label_entries 10000"
  using label_entries_Suc [of 9999] by (simp add: label_entry_def)

text \<open>
  Claim C3, as the code has it. When the commit that is due after a put inside the loop
  fails, \<^verbatim>\<open>ComputeSizes\<close> logs the failure and returns at once: the rest of the stream is
  not read, so no entry is put for any later label, the sentinel branch with its final
  commit is not reached, and the entries of the failed batch are not made durable.
\<close>

theorem failed_commit_ends_run:
  assumes "is_batcher env"
    and "ComputeSizes_loop env pre sizes_init = (Blocked, s)"
    and "chunk_Op c = OpUint64 label"
    and "UnmarshalBinary env (chunk_V c) = Inr rles"
    and "notFirst s" and "label \<noteq> curLabel s"
    and "Suc (putsInBatch s) mod BATCH_SIZE = 0"
    and "Commit_err env (commits_mid s)
           (batch s @ [(NewLabelSizesIndex (KeyLabelSizes env) (curSize s) (curLabel s), EmptyValue)])
         = Some err"
  shows "ComputeSizes env (pre @ Some c # rest) =
           (Returned,
            s\<lparr>curSize := 0,
              putsInBatch := Suc (putsInBatch s),
              batch := batch s @ [(NewLabelSizesIndex (KeyLabelSizes env) (curSize s) (curLabel s), EmptyValue)],
              puts := puts s @ [(NewLabelSizesIndex (KeyLabelSizes env) (curSize s) (curLabel s), EmptyValue)],
              commits_mid := Suc (commits_mid s),
              logged := logged s @ [''Error on batch PUT of label sizes: '' @ err @ nl],
              wg_done := 1\<rparr>) \<and>
         committed (snd (ComputeSizes env (pre @ Some c # rest))) = committed s \<and>
         commits_end (snd (ComputeSizes env (pre @ Some c # rest))) = 0"
proof -
  have run: "sizes_running s" using ComputeSizes_loop_running assms(2) by blast
  then have idx: "commits_mid s + commits_end s = commits_mid s"
    by (simp add: sizes_running_def)
  have step: "ComputeSizes_chunk env c s =
           (Some Returned,
            s\<lparr>curSize := 0,
              putsInBatch := Suc (putsInBatch s),
              batch := batch s @ [(NewLabelSizesIndex (KeyLabelSizes env) (curSize s) (curLabel s), EmptyValue)],
              puts := puts s @ [(NewLabelSizesIndex (KeyLabelSizes env) (curSize s) (curLabel s), EmptyValue)],
              commits_mid := Suc (commits_mid s),
              logged := logged s @ [''Error on batch PUT of label sizes: '' @ err @ nl]\<rparr>)"
    using ComputeSizes_chunk_commit_fails [OF assms(3-7)] assms(8) idx by simp
  show ?thesis
    using ComputeSizes_exit_after [OF assms(1,2) step, of rest] run
    by (simp add: sizes_running_def)
qed

lemma label_state_fields:
  "notFirst (label_state n)" "curLabel (label_state n) = of_nat (Suc n)"
  "putsInBatch (label_state n) = n" "commits_mid (label_state n) = 0"
  "commits_end (label_state n) = 0"
  "batch (label_state n) = label_entries n" "puts (label_state n) = label_entries n"
  "curSize (label_state n) = 2" "committed (label_state n) = []"
  "logged (label_state n) = []" "wg_done (label_state n) = 0"
  by (simp_all add: label_state_def)

theorem failed_commit_ends_run_witness:
  "fst (ComputeSizes (ref_sizes_env [0])
          (label_stream 10000 @ [label_chunk 10001, label_chunk 10002, None])) = Returned \<and>
   commits_end (snd (ComputeSizes (ref_sizes_env [0])
          (label_stream 10000 @ [label_chunk 10001, label_chunk 10002, None]))) = 0 \<and>
   logged (snd (ComputeSizes (ref_sizes_env [0])
          (label_stream 10000 @ [label_chunk 10001, label_chunk 10002, None]))) =
     [''Error on batch PUT of label sizes: write failed'' @ nl]"
proof -
  let ?c = "\<lparr>chunk_Op = OpUint64 10001, chunk_V = run_bytes 2\<rparr>"
  have op: "chunk_Op ?c = OpUint64 10001" by simp
  have dec: "UnmarshalBinary (ref_sizes_env [0]) (chunk_V ?c) = Inr [(0, 0, 0, ucast (2::byte))]"
    by (simp add: ref_sizes_decode)
  have nf: "notFirst (label_state 9999)" by (simp add: label_state_fields)
  have ne: "(10001::uint64) \<noteq> curLabel (label_state 9999)" by (simp add: label_state_fields)
  have due: "Suc (putsInBatch (label_state 9999)) mod BATCH_SIZE = 0"
    by (simp add: label_state_fields BATCH_SIZE_def)
  have fail: "Commit_err (ref_sizes_env [0]) (commits_mid (label_state 9999))
      (batch (label_state 9999) @
        [(NewLabelSizesIndex (KeyLabelSizes (ref_sizes_env [0])) (curSize (label_state 9999))
            (curLabel (label_state 9999)), EmptyValue)]) = Some ''write failed''"
    by (simp add: ref_sizes_fields label_state_fields)
  show ?thesis
    using failed_commit_ends_run [OF ref_sizes_batcher label_stream_full op dec nf ne due fail,
        of "[label_chunk 10002, None]"]
    by (simp add: label_chunk_def mk_chunk_def label_state_fields)
qed

theorem failed_commit_counterexample:
  "fst (ComputeSizes (ref_sizes_env [0])
          (label_stream 10000 @ [label_chunk 10001, label_chunk 10002, None])) = Returned \<and>
   puts (snd (ComputeSizes (ref_sizes_env [0])
          (label_stream 10000 @ [label_chunk 10001, label_chunk 10002, None]))) = label_entries 10000 \<and>
   length (puts (snd (ComputeSizes (ref_sizes_env [0])
          (label_stream 10000 @ [label_chunk 10001, label_chunk 10002, None])))) = 10000 \<and>
   commits_mid (snd (ComputeSizes (ref_sizes_env [0])
          (label_stream 10000 @ [label_chunk 10001, label_chunk 10002, None]))) = 1 \<and>
   commits_end (snd (ComputeSizes (ref_sizes_env [0])
          (label_stream 10000 @ [label_chunk 10001, label_chunk 10002, None]))) = 0 \<and>
   committed (snd (ComputeSizes (ref_sizes_env [0])
          (label_stream 10000 @ [label_chunk 10001, label_chunk 10002, None]))) = []"
proof -
  let ?c = "\<lparr>chunk_Op = OpUint64 10001, chunk_V = run_bytes 2\<rparr>"
  have op: "chunk_Op ?c = OpUint64 10001" by simp
  have dec: "UnmarshalBinary (ref_sizes_env [0]) (chunk_V ?c) = Inr [(0, 0, 0, ucast (2::byte))]"
    by (simp add: ref_sizes_decode)
  have nf: "notFirst (label_state 9999)" by (simp add: label_state_fields)
  have ne: "(10001::uint64) \<noteq> curLabel (label_state 9999)" by (simp add: label_state_fields)
  have due: "Suc (putsInBatch (label_state 9999)) mod BATCH_SIZE = 0"
    by (simp add: label_state_fields BATCH_SIZE_def)
  have fail: "Commit_err (ref_sizes_env [0])
      (commits_mid (label_state 9999) + commits_end (label_state 9999))
      (batch (label_state 9999) @
        [(NewLabelSizesIndex (KeyLabelSizes (ref_sizes_env [0])) (curSize (label_state 9999))
            (curLabel (label_state 9999)), EmptyValue)]) = Some ''write failed''"
    by (simp add: ref_sizes_fields label_state_fields)
  note step = ComputeSizes_chunk_commit_fails [OF op dec nf ne due fail]
  have len: "length (label_entries 10000) = 10000" by (rule length_label_entries)
  show ?thesis
    using ComputeSizes_exit_after [OF ref_sizes_batcher label_stream_full step,
        of "[label_chunk 10002, None]"] label_entries_full len
    by (simp add: label_chunk_def mk_chunk_def label_state_fields ref_sizes_fields)
qed








subsection \<open>The sparse volume blob\<close>

lemma fold_sparse_chunk:
  "fold sparse_chunk vs op =
     op\<lparr>numBlocks := numBlocks op + of_nat (length vs),
        encoding := encoding op @ concat vs,
        numRuns := numRuns op + of_nat (sum_list (map (\<lambda>v. length v div 16) vs))\<rparr>"
  by (induction vs arbitrary: op) (simp_all add: sparse_chunk_def add.assoc)

lemma whole_records:
  "\<forall>v\<in>set vs. length v mod 16 = 0 \<Longrightarrow>
   sum_list (map (\<lambda>v. length v div 16) vs) = length (concat vs) div 16"
proof (induction vs)
  case Nil
  show ?case by simp
next
  case (Cons v vs)
  then have "16 dvd length v" by (simp add: dvd_eq_mod_eq_0)
  then have "(length v + length (concat vs)) div 16 = length v div 16 + length (concat vs) div 16"
    by (simp add: div_plus_div_distrib_dvd_left)
  then show ?case using Cons by simp
qed

lemma GetSparseVol_eval:
  assumes "SmallDataStore_err env = None" and "range_err env = None"
  shows "GetSparseVol env label =
           (Some ([0, 3, 0, 0] @ [0, 0, 0, 0]
                  @ LittleEndian_PutUint32
                      (of_nat (sum_list (map (\<lambda>v. length v div 16) (sparse_entries env label))))
                  @ concat (sparse_entries env label)),
            None)"
  using assms
  by (simp add: GetSparseVol_def ProcessRange_def fold_sparse_chunk sparse_header_def
      EncodingBinary_def sparse_entries_def Let_def LittleEndian_PutUint32_def)

text \<open>
  Claim C6, as the code has it. When the store and its range read work, the blob of
  \<^verbatim>\<open>GetSparseVol\<close> is a header of 12 bytes, which are the payload descriptor 0, the axis
  count 3, the fast axis 0, a reserved 0, the voxel count left at 0 and the run count, both
  in four little-endian bytes, followed by the bytes of the matched entries in scan order.
  The run count is the sum of the whole 16-byte records of each entry, reduced to 32 bits;
  when every entry is a whole number of records, that sum is the length of the
  concatenated bytes divided by 16.
\<close>

theorem GetSparseVol_blob:
  assumes "SmallDataStore_err env = None" and "range_err env = None"
  shows "GetSparseVol env label =
           (Some ([0, 3, 0, 0] @ [0, 0, 0, 0]
                  @ LittleEndian_PutUint32
                      (of_nat (sum_list (map (\<lambda>v. length v div 16) (sparse_entries env label))))
                  @ concat (sparse_entries env label)),
            None) \<and>
         ((\<forall>v\<in>set (sparse_entries env label). length v mod 16 = 0) \<longrightarrow>
            sum_list (map (\<lambda>v. length v div 16) (sparse_entries env label)) =
              length (concat (sparse_entries env label)) div 16)"
proof -
  have blob: "GetSparseVol env label =
           (Some ([0, 3, 0, 0] @ [0, 0, 0, 0]
                  @ LittleEndian_PutUint32
                      (of_nat (sum_list (map (\<lambda>v. length v div 16) (sparse_entries env label))))
                  @ concat (sparse_entries env label)),
            None)"
    using assms by (rule GetSparseVol_eval)
  show ?thesis using blob whole_records [of "sparse_entries env label"] by blast
qed

lemma ref_sparse_entries:
  "sparse_entries ref_small_env 1 = [run_bytes 3 @ run_bytes 4, run_bytes 5]"
  by (simp add: sparse_entries_def ref_small_env_def store_range_def NewLabelSpatialMapIndex_def
      NewLabelSizesIndex_def BigEndian_PutUint64_def)

lemma ragged_sparse_entries:
  "sparse_entries ragged_small_env 1 = [[1, 0, 0, 0, 0, 0, 0, 0], [2, 0, 0, 0, 1, 0, 0, 0]]"
  by (simp add: sparse_entries_def ragged_small_env_def store_range_def NewLabelSpatialMapIndex_def
      BigEndian_PutUint64_def)

theorem GetSparseVol_blob_witness:
  "GetSparseVol ref_small_env 1 =
     (Some ([0, 3, 0, 0, 0, 0, 0, 0, 3, 0, 0, 0] @ run_bytes 3 @ run_bytes 4 @ run_bytes 5), None) \<and>
   length (run_bytes 3 @ run_bytes 4 @ run_bytes 5) div 16 = 3"
proof -
  have a: "SmallDataStore_err ref_small_env = None" by (simp add: ref_small_env_def)
  have b: "range_err ref_small_env = None" by (simp add: ref_small_env_def)
  have c: "\<forall>v\<in>set (sparse_entries ref_small_env 1). length v mod 16 = 0"
    by (simp add: ref_sparse_entries run_bytes_def)
  show ?thesis
    using GetSparseVol_blob [OF a b, of 1] c
    by (simp add: ref_sparse_entries LittleEndian_PutUint32_def) (simp add: run_bytes_def)
qed

theorem GetSparseVol_blob_counterexample:
  "GetSparseVol ragged_small_env 1 =
     (Some [0, 3, 0, 0, 0, 0, 0, 0, 0, 0, 0, 0,
            1, 0, 0, 0, 0, 0, 0, 0, 2, 0, 0, 0, 1, 0, 0, 0], None) \<and>
   GetSparseVol ragged_small_env 2 = (Some [0, 3, 0, 0, 0, 0, 0, 0, 0, 0, 0, 0], None)"
proof -
  have a: "SmallDataStore_err ragged_small_env = None" by (simp add: ragged_small_env_def)
  have b: "range_err ragged_small_env = None" by (simp add: ragged_small_env_def)
  have c: "sparse_entries ragged_small_env 2 = []"
    by (simp add: sparse_entries_def ragged_small_env_def store_range_def NewLabelSpatialMapIndex_def
        BigEndian_PutUint64_def)
  show ?thesis
    using GetSparseVol_eval [OF a b, of 1] GetSparseVol_eval [OF a b, of 2]
    by (simp add: ragged_sparse_entries c LittleEndian_PutUint32_def)
qed

subsection \<open>Big-endian keys and their order\<close>

lemma byte_unat: "unat (ucast (drop_bit k (w :: uint64)) :: byte) = (unat w div 2 ^ k) mod 256"
proof -
  have "unat (ucast (drop_bit k w) :: byte) = take_bit 8 (unat (drop_bit k w))"
    by (simp add: unsigned_ucast_eq)
  also have "\<dots> = take_bit 8 (drop_bit k (unat w))"
    by (simp only: unat_drop_bit_eq)
  also have "\<dots> = (unat w div 2 ^ k) mod 256"
    by (simp add: take_bit_eq_mod drop_bit_eq_div)
  finally show ?thesis .
qed

lemma BigEndian_roundtrip:
  "BigEndian_Uint64 (BigEndian_PutUint64 w @ rest) = w"
proof (rule bit_word_eqI)
  fix n :: nat
  assume "n < LENGTH(64)"
  then have n: "n < 64" by simp
  consider (b0) "n < 8" | (b1) "8 \<le> n" "n < 16" | (b2) "16 \<le> n" "n < 24"
    | (b3) "24 \<le> n" "n < 32" | (b4) "32 \<le> n" "n < 40" | (b5) "40 \<le> n" "n < 48"
    | (b6) "48 \<le> n" "n < 56" | (b7) "56 \<le> n" "n < 64"
    using n by linarith
  then show "bit (BigEndian_Uint64 (BigEndian_PutUint64 w @ rest)) n = bit w n"
  proof cases
    case b0 then show ?thesis by (auto simp add: BigEndian_PutUint64_def bit_simps)
  next
    case b1
    then have "n - 8 < 8" by linarith
    then show ?thesis using b1 by (auto simp add: BigEndian_PutUint64_def bit_simps)
  next
    case b2
    then have "n - 16 < 8" by linarith
    then show ?thesis using b2 by (auto simp add: BigEndian_PutUint64_def bit_simps)
  next
    case b3
    then have "n - 24 < 8" by linarith
    then show ?thesis using b3 by (auto simp add: BigEndian_PutUint64_def bit_simps)
  next
    case b4
    then have "n - 32 < 8" by linarith
    then show ?thesis using b4 by (auto simp add: BigEndian_PutUint64_def bit_simps)
  next
    case b5
    then have "n - 40 < 8" by linarith
    then show ?thesis using b5 by (auto simp add: BigEndian_PutUint64_def bit_simps)
  next
    case b6
    then have "n - 48 < 8" by linarith
    then show ?thesis using b6 by (auto simp add: BigEndian_PutUint64_def bit_simps)
  next
    case b7
    then have "n - 56 < 8" by linarith
    then show ?thesis using b7 by (auto simp add: BigEndian_PutUint64_def bit_simps)
  qed
qed

lemma digit_pair_less:
  fixes b d d' r r' :: nat
  assumes "r < b" and "r' < b"
  shows "(b * d + r < b * d' + r') = (d < d' \<or> d = d' \<and> r < r')"
proof (cases "d < d'")
  case True
  then have "Suc d \<le> d'" by simp
  then have "b * Suc d \<le> b * d'" by (rule mult_le_mono2)
  then have "b * d + r < b * d' + r'" using assms by simp
  then show ?thesis using True by simp
next
  case False
  show ?thesis
  proof (cases "d = d'")
    case True
    then show ?thesis by simp
  next
    case ne: False
    then have "d' < d" using False by simp
    then have "Suc d' \<le> d" by simp
    then have "b * Suc d' \<le> b * d" by (rule mult_le_mono2)
    then have "\<not> b * d + r < b * d' + r'" using assms by simp
    then show ?thesis using False ne by simp
  qed
qed

lemma be_digits_less:
  "(be_digits k m < be_digits k n) = (m mod 256 ^ k < n mod 256 ^ k)"
proof (induction k)
  case 0
  show ?case by simp
next
  case (Suc k)
  have m: "m mod 256 ^ Suc k = 256 ^ k * (m div 256 ^ k mod 256) + m mod 256 ^ k"
    using mod_mult2_eq [of m "256 ^ k" 256] by (simp add: mult.commute)
  have n: "n mod 256 ^ Suc k = 256 ^ k * (n div 256 ^ k mod 256) + n mod 256 ^ k"
    using mod_mult2_eq [of n "256 ^ k" 256] by (simp add: mult.commute)
  have rm: "m mod 256 ^ k < (256::nat) ^ k" by simp
  have rn: "n mod 256 ^ k < (256::nat) ^ k" by simp
  have "(m mod 256 ^ Suc k < n mod 256 ^ Suc k) =
        (m div 256 ^ k mod 256 < n div 256 ^ k mod 256 \<or>
         m div 256 ^ k mod 256 = n div 256 ^ k mod 256 \<and> m mod 256 ^ k < n mod 256 ^ k)"
    unfolding m n by (rule digit_pair_less [OF rm rn])
  then show ?case using Suc.IH by simp
qed

lemma map_unat_less:
  "(map unat xs < map unat ys) = (xs < (ys :: 'a::len word list))"
proof (induction xs arbitrary: ys)
  case Nil
  show ?case by (cases ys) simp_all
next
  case (Cons x xs)
  show ?case
  proof (cases ys)
    case Nil
    then show ?thesis by simp
  next
    case (Cons y ys')
    then show ?thesis using Cons.IH [of ys'] by (simp add: word_less_nat_alt word_unat_eq_iff)
  qed
qed

lemma BigEndian_PutUint64_digits:
  "map unat (BigEndian_PutUint64 w) = be_digits 8 (unat w)"
proof -
  have e: "(8::nat) = Suc (Suc (Suc (Suc (Suc (Suc (Suc (Suc 0)))))))" by simp
  have z: "unat (ucast w :: byte) = unat w mod 256"
    using byte_unat [of 0 w] by simp
  show ?thesis
    by (subst e) (simp add: BigEndian_PutUint64_def byte_unat z)
qed

lemma BigEndian_PutUint64_less:
  "(BigEndian_PutUint64 v < BigEndian_PutUint64 w) = (v < w)"
proof -
  have bv: "unat v mod 256 ^ 8 = unat v"
    using unsigned_less [of v, where ?'a = nat] by simp
  have bw: "unat w mod 256 ^ 8 = unat w"
    using unsigned_less [of w, where ?'a = nat] by simp
  have "(BigEndian_PutUint64 v < BigEndian_PutUint64 w) =
        (map unat (BigEndian_PutUint64 v) < map unat (BigEndian_PutUint64 w))"
    by (simp add: map_unat_less)
  also have "\<dots> = (unat v mod 256 ^ 8 < unat w mod 256 ^ 8)"
    by (simp only: BigEndian_PutUint64_digits be_digits_less)
  also have "\<dots> = (v < w)"
    by (simp only: bv bw word_less_nat_alt)
  finally show ?thesis .
qed

lemma BigEndian_bytes_roundtrip:
  "BigEndian_PutUint64 (BigEndian_Uint64 [b0, b1, b2, b3, b4, b5, b6, b7]) =
     [b0, b1, b2, b3, b4, b5, b6, b7]"
proof -
  let ?w = "BigEndian_Uint64 [b0, b1, b2, b3, b4, b5, b6, b7]"
  have "ucast (drop_bit 56 ?w) = b0" by (rule bit_word_eqI) (auto simp add: bit_simps dest: bit_imp_le_length)
  moreover have "ucast (drop_bit 48 ?w) = b1" by (rule bit_word_eqI) (auto simp add: bit_simps dest: bit_imp_le_length)
  moreover have "ucast (drop_bit 40 ?w) = b2" by (rule bit_word_eqI) (auto simp add: bit_simps dest: bit_imp_le_length)
  moreover have "ucast (drop_bit 32 ?w) = b3" by (rule bit_word_eqI) (auto simp add: bit_simps dest: bit_imp_le_length)
  moreover have "ucast (drop_bit 24 ?w) = b4" by (rule bit_word_eqI) (auto simp add: bit_simps dest: bit_imp_le_length)
  moreover have "ucast (drop_bit 16 ?w) = b5" by (rule bit_word_eqI) (auto simp add: bit_simps dest: bit_imp_le_length)
  moreover have "ucast (drop_bit 8 ?w) = b6" by (rule bit_word_eqI) (auto simp add: bit_simps dest: bit_imp_le_length)
  moreover have "ucast ?w = b7" by (rule bit_word_eqI) (auto simp add: bit_simps dest: bit_imp_le_length)
  ultimately show ?thesis by (simp only: BigEndian_PutUint64_def)
qed

lemma list8:
  "length (bs :: 'a list) = 8 \<Longrightarrow> \<exists>b0 b1 b2 b3 b4 b5 b6 b7. bs = [b0, b1, b2, b3, b4, b5, b6, b7]"
  by (auto simp add: numeral_eq_Suc length_Suc_conv)

lemma length_BigEndian_PutUint64: "length (BigEndian_PutUint64 w) = 8"
  by (simp add: BigEndian_PutUint64_def)

lemma BigEndian_PutUint64_inject:
  "(BigEndian_PutUint64 v = BigEndian_PutUint64 w) = (v = w)"
proof
  assume "BigEndian_PutUint64 v = BigEndian_PutUint64 w"
  then have "BigEndian_Uint64 (BigEndian_PutUint64 v @ []) = BigEndian_Uint64 (BigEndian_PutUint64 w @ [])"
    by simp
  then show "v = w" by (simp only: BigEndian_roundtrip)
qed simp

lemma append_less_same_length:
  "length a = length a' \<Longrightarrow> (a @ b < a' @ b') = (a < a' \<or> a = a' \<and> b < (b' :: 'a::order list))"
proof (induction a a' rule: list_induct2)
  case Nil
  show ?case by simp
next
  case (Cons x xs y ys)
  then show ?case by auto
qed

lemma NewLabelSizesIndex_less:
  "(NewLabelSizesIndex t c l < NewLabelSizesIndex t c' l') = ((c, l) < (c', l'))"
  by (auto simp add: NewLabelSizesIndex_def append_less_same_length length_BigEndian_PutUint64
      BigEndian_PutUint64_less BigEndian_PutUint64_inject)

lemma NewLabelSizesIndex_inject:
  "(NewLabelSizesIndex t c l = NewLabelSizesIndex t c' l') = (c = c' \<and> l = l')"
  by (auto simp add: NewLabelSizesIndex_def length_BigEndian_PutUint64 BigEndian_PutUint64_inject)

lemma NewLabelSizesIndex_le:
  "(NewLabelSizesIndex t c l \<le> NewLabelSizesIndex t c' l') = ((c, l) \<le> (c', l'))"
proof -
  have "(NewLabelSizesIndex t c l \<le> NewLabelSizesIndex t c' l') =
        (NewLabelSizesIndex t c l < NewLabelSizesIndex t c' l' \<or>
         NewLabelSizesIndex t c l = NewLabelSizesIndex t c' l')"
    by (rule le_less)
  also have "\<dots> = ((c, l) < (c', l') \<or> (c, l) = (c', l'))"
    by (simp only: NewLabelSizesIndex_less NewLabelSizesIndex_inject prod.inject)
  also have "\<dots> = ((c, l) \<le> (c', l'))"
    by (rule le_less [symmetric])
  finally show ?thesis .
qed

subsection \<open>The size range query\<close>

lemma map_insort_key:
  "map f (insort_key f x xs) = insort (f x) (map f xs)"
  by (induction xs) simp_all

lemma map_sort_key:
  "map f (sort_key f xs) = sort (map f xs)"
  by (induction xs) (simp_all add: map_insort_key)

lemma insort_key_same_order:
  "\<forall>y\<in>set xs. (f x \<le> f y) = (g x \<le> g y) \<Longrightarrow> insort_key f x xs = insort_key g x xs"
  by (induction xs) simp_all

lemma sort_key_same_order:
  "\<forall>a\<in>set xs. \<forall>b\<in>set xs. (f a \<le> f b) = (g a \<le> g b) \<Longrightarrow> sort_key f xs = sort_key g xs"
proof (induction xs)
  case Nil
  show ?case by simp
next
  case (Cons x xs)
  then have ih: "sort_key f xs = sort_key g xs" by simp
  have "\<forall>y\<in>set (sort_key g xs). (f x \<le> f y) = (g x \<le> g y)"
    using Cons.prems by simp
  then have "insort_key f x (sort_key g xs) = insort_key g x (sort_key g xs)"
    by (rule insort_key_same_order)
  then show ?case using ih by simp
qed

lemma LabelSizesKey_parts_New:
  "LabelSizesKey_parts (NewLabelSizesIndex t c l) = (c, l)"
proof -
  have a: "BigEndian_Uint64 (BigEndian_PutUint64 c @ BigEndian_PutUint64 l) = c"
    by (rule BigEndian_roundtrip)
  have b: "BigEndian_Uint64 (BigEndian_PutUint64 l @ []) = l"
    by (rule BigEndian_roundtrip)
  show ?thesis
    using a b
    by (simp add: LabelSizesKey_parts_def NewLabelSizesIndex_def length_BigEndian_PutUint64)
qed

lemma is_LabelSizesKey_New: "is_LabelSizesKey t (NewLabelSizesIndex t c l)"
  by (simp add: is_LabelSizesKey_def NewLabelSizesIndex_def length_BigEndian_PutUint64)

lemma LabelSizesKey_form:
  assumes "is_LabelSizesKey t k"
  shows "k = NewLabelSizesIndex t (fst (LabelSizesKey_parts k)) (snd (LabelSizesKey_parts k))"
proof -
  have len: "length k = 17" and tag: "hd k = t"
    using assms by (simp_all add: is_LabelSizesKey_def)
  obtain x a b where k: "k = x # a @ b" and la: "length a = 8" and lb: "length b = 8"
  proof -
    have "k = hd k # take 8 (tl k) @ drop 8 (tl k)"
      using len by (cases k) simp_all
    moreover have "length (take 8 (tl k)) = 8" using len by simp
    moreover have "length (drop 8 (tl k)) = 8" using len by simp
    ultimately show ?thesis using that by blast
  qed
  obtain a0 a1 a2 a3 a4 a5 a6 a7 where a: "a = [a0, a1, a2, a3, a4, a5, a6, a7]"
    using list8 [OF la] by blast
  obtain b0 b1 b2 b3 b4 b5 b6 b7 where b: "b = [b0, b1, b2, b3, b4, b5, b6, b7]"
    using list8 [OF lb] by blast
  have x: "x = t" using k tag by simp
  have ca: "BigEndian_Uint64 (drop 1 k) = BigEndian_Uint64 [a0, a1, a2, a3, a4, a5, a6, a7]"
    by (simp add: k a b)
  have cb: "BigEndian_Uint64 (drop 9 k) = BigEndian_Uint64 [b0, b1, b2, b3, b4, b5, b6, b7]"
    by (simp add: k a b)
  show ?thesis
    unfolding NewLabelSizesIndex_def LabelSizesKey_parts_def fst_conv snd_conv ca cb
      BigEndian_bytes_roundtrip
    by (simp add: k a b x)
qed

lemma LabelSizesKey_order:
  assumes "is_LabelSizesKey t k" and "is_LabelSizesKey t k'"
  shows "(k \<le> k') = (LabelSizesKey_parts k \<le> LabelSizesKey_parts k')"
proof -
  obtain c l where p: "LabelSizesKey_parts k = (c, l)" by (cases "LabelSizesKey_parts k")
  obtain c' l' where p': "LabelSizesKey_parts k' = (c', l')" by (cases "LabelSizesKey_parts k'")
  have k: "k = NewLabelSizesIndex t c l" using LabelSizesKey_form [OF assms(1)] p by simp
  have k': "k' = NewLabelSizesIndex t c' l'" using LabelSizesKey_form [OF assms(2)] p' by simp
  show ?thesis unfolding p p' unfolding k k' by (rule NewLabelSizesIndex_le)
qed

lemma range_keys_tagged:
  assumes "NewLabelSizesIndex t c l \<le> k" and "k \<le> NewLabelSizesIndex t c' l'"
  shows "k \<noteq> [] \<and> hd k = t"
proof (cases k)
  case Nil
  then show ?thesis using assms(1) by (simp add: NewLabelSizesIndex_def)
next
  case (Cons x xs)
  have "t \<le> x" using assms(1) Cons by (auto simp add: NewLabelSizesIndex_def list_le_def)
  moreover have "x \<le> t" using assms(2) Cons by (auto simp add: NewLabelSizesIndex_def list_le_def)
  ultimately show ?thesis using Cons by simp
qed

lemma LabelSizesKey_in_range:
  assumes "is_LabelSizesKey t k"
  shows "(NewLabelSizesIndex t minSize 0 \<le> k \<and>
          k \<le> NewLabelSizesIndex t (if maxSize \<noteq> 0 then maxSize else MaxUint64) MaxUint64) =
         count_in_range minSize maxSize (LabelSizesKey_parts k)"
proof -
  obtain c l where p: "LabelSizesKey_parts k = (c, l)" by (cases "LabelSizesKey_parts k")
  have k: "k = NewLabelSizesIndex t c l" using LabelSizesKey_form [OF assms] p by simp
  have top: "l \<le> MaxUint64" by (simp add: MaxUint64_def)
  show ?thesis
    unfolding p unfolding k NewLabelSizesIndex_le
    using top by (auto simp add: count_in_range_def less_eq_prod_simp)
qed

lemma decode_labels_keys:
  "\<forall>k\<in>set ks. is_LabelSizesKey t k \<Longrightarrow>
   decode_labels t ks = Inr (map (\<lambda>k. snd (LabelSizesKey_parts k)) ks)"
  by (induction ks)
     (simp_all add: LabelFromLabelSizesKey_def is_LabelSizesKey_def LabelSizesKey_parts_def)

lemma KeysInRange_sorted:
  assumes "range_err env = None"
  shows "KeysInRange env firstKey lastKey =
           Inr (sort (filter (\<lambda>k. firstKey \<le> k \<and> k \<le> lastKey) (map fst (small_kvs env))))"
proof -
  have "map fst (filter (\<lambda>kv. firstKey \<le> fst kv \<and> fst kv \<le> lastKey) (small_kvs env)) =
        filter (\<lambda>k. firstKey \<le> k \<and> k \<le> lastKey) (map fst (small_kvs env))"
    by (simp add: filter_map o_def)
  then show ?thesis
    using assms by (simp add: KeysInRange_def store_range_def map_sort_key)
qed

lemma size_range_keys:
  assumes "\<forall>k\<in>set ks. k \<noteq> [] \<and> hd k = t \<longrightarrow> length k = 17"
  shows "filter (\<lambda>k. NewLabelSizesIndex t minSize 0 \<le> k \<and>
                     k \<le> NewLabelSizesIndex t (if maxSize \<noteq> 0 then maxSize else MaxUint64) MaxUint64) ks =
         filter (\<lambda>k. count_in_range minSize maxSize (LabelSizesKey_parts k))
           (filter (is_LabelSizesKey t) ks)"
proof -
  have "(NewLabelSizesIndex t minSize 0 \<le> k \<and>
          k \<le> NewLabelSizesIndex t (if maxSize \<noteq> 0 then maxSize else MaxUint64) MaxUint64) =
        (is_LabelSizesKey t k \<and> count_in_range minSize maxSize (LabelSizesKey_parts k))"
    if "k \<in> set ks" for k
  proof (cases "is_LabelSizesKey t k")
    case True
    then show ?thesis using LabelSizesKey_in_range [OF True, of minSize maxSize] by simp
  next
    case False
    have "\<not> (NewLabelSizesIndex t minSize 0 \<le> k \<and>
          k \<le> NewLabelSizesIndex t (if maxSize \<noteq> 0 then maxSize else MaxUint64) MaxUint64)"
    proof
      assume r: "NewLabelSizesIndex t minSize 0 \<le> k \<and>
          k \<le> NewLabelSizesIndex t (if maxSize \<noteq> 0 then maxSize else MaxUint64) MaxUint64"
      then have "k \<noteq> [] \<and> hd k = t" using range_keys_tagged by blast
      then have "is_LabelSizesKey t k" using assms that by (simp add: is_LabelSizesKey_def)
      then show False using False by simp
    qed
    then show ?thesis using False by simp
  qed
  then show ?thesis by (simp add: conj_commute cong: filter_cong)
qed

lemma sort_size_keys:
  assumes "\<forall>k\<in>set ks. is_LabelSizesKey t k"
  shows "map LabelSizesKey_parts (sort ks) = sort (map LabelSizesKey_parts ks)"
proof -
  have "sort_key (\<lambda>k. k) ks = sort_key LabelSizesKey_parts ks"
    by (rule sort_key_same_order) (use assms LabelSizesKey_order in blast)
  then show ?thesis by (simp add: map_sort_key)
qed

lemma GetSizeRange_labels:
  assumes "SmallDataStore_err env = None" and "range_err env = None"
    and "\<forall>k\<in>set (map fst (small_kvs env)). k \<noteq> [] \<and> hd k = tag_LabelSizes env \<longrightarrow> length k = 17"
  shows "GetSizeRange env minSize maxSize = (json_Marshal (labels_in_range env minSize maxSize), None)"
proof -
  let ?t = "tag_LabelSizes env"
  let ?keys = "map fst (small_kvs env)"
  let ?ks = "filter (\<lambda>k. count_in_range minSize maxSize (LabelSizesKey_parts k))
               (filter (is_LabelSizesKey ?t) ?keys)"
  have range: "KeysInRange env (NewLabelSizesIndex ?t minSize 0)
      (NewLabelSizesIndex ?t (if maxSize \<noteq> 0 then maxSize else MaxUint64) MaxUint64) = Inr (sort ?ks)"
    using KeysInRange_sorted [OF assms(2)] size_range_keys [OF assms(3)] by simp
  have wf: "\<forall>k\<in>set ?ks. is_LabelSizesKey ?t k" by simp
  then have wfs: "\<forall>k\<in>set (sort ?ks). is_LabelSizesKey ?t k" by simp
  have dec: "decode_labels ?t (sort ?ks) = Inr (map (\<lambda>k. snd (LabelSizesKey_parts k)) (sort ?ks))"
    using wfs by (rule decode_labels_keys)
  have "map (\<lambda>k. snd (LabelSizesKey_parts k)) (sort ?ks) = map snd (map LabelSizesKey_parts (sort ?ks))"
    by simp
  also have "\<dots> = map snd (sort (map LabelSizesKey_parts ?ks))"
    using sort_size_keys [OF wf] by simp
  also have "map LabelSizesKey_parts ?ks =
      filter (count_in_range minSize maxSize) (stored_sizes env)"
    by (simp add: stored_sizes_def filter_map o_def)
  finally have labels: "map (\<lambda>k. snd (LabelSizesKey_parts k)) (sort ?ks) =
      labels_in_range env minSize maxSize"
    by (simp add: labels_in_range_def)
  show ?thesis
    using assms(1) range dec labels by (simp add: GetSizeRange_def Let_def)
qed

lemma three_sizes_in_range:
  assumes "small_kvs env =
             [(NewLabelSizesIndex (tag_LabelSizes env) 5 L1, EmptyValue),
              (NewLabelSizesIndex (tag_LabelSizes env) 3 L2, EmptyValue),
              (NewLabelSizesIndex (tag_LabelSizes env) 9 L3, EmptyValue)]"
  shows "labels_in_range env 4 10 = [L1, L3]"
  using assms
  by (simp add: labels_in_range_def stored_sizes_def is_LabelSizesKey_New LabelSizesKey_parts_New
      count_in_range_def less_eq_prod_simp)

text \<open>
  Claim C7. When the small data store and its range read work and every key of the store
  that begins with the tag of the size index has the 17 bytes of a size index key,
  \<^verbatim>\<open>GetSizeRange\<close> returns, as a JSON list and with a nil error, exactly the labels whose
  stored voxel count lies between the minimum and the maximum (a maximum of 0 standing for
  the largest count), ascending by (count, label): reading the keys from (minimum, label 0)
  to (maximum, largest label) in key order is reading those pairs in that order. When no
  count lies in the range the result is the empty list with a nil error. With the stored
  sizes (5, L1), (3, L2), (9, L3) the query from 4 to 10 returns L1 and L3.
\<close>

theorem GetSizeRange_refines:
  assumes "SmallDataStore_err env = None" and "range_err env = None"
    and "\<forall>k\<in>set (map fst (small_kvs env)). k \<noteq> [] \<and> hd k = tag_LabelSizes env \<longrightarrow> length k = 17"
  shows "GetSizeRange env minSize maxSize =
           (json_Marshal (labels_in_range env minSize maxSize), None) \<and>
         (labels_in_range env minSize maxSize = [] \<longrightarrow>
            GetSizeRange env minSize maxSize = (''[]'', None)) \<and>
         (small_kvs env =
             [(NewLabelSizesIndex (tag_LabelSizes env) 5 L1, EmptyValue),
              (NewLabelSizesIndex (tag_LabelSizes env) 3 L2, EmptyValue),
              (NewLabelSizesIndex (tag_LabelSizes env) 9 L3, EmptyValue)] \<longrightarrow>
            GetSizeRange env 4 10 = (json_Marshal [L1, L3], None))"
proof -
  have a: "GetSizeRange env minSize maxSize =
           (json_Marshal (labels_in_range env minSize maxSize), None)"
    using assms by (rule GetSizeRange_labels)
  have b: "labels_in_range env minSize maxSize = [] \<Longrightarrow>
            GetSizeRange env minSize maxSize = (''[]'', None)"
    using a by (simp add: json_Marshal_def)
  have c: "GetSizeRange env 4 10 = (json_Marshal [L1, L3], None)"
    if "small_kvs env =
             [(NewLabelSizesIndex (tag_LabelSizes env) 5 L1, EmptyValue),
              (NewLabelSizesIndex (tag_LabelSizes env) 3 L2, EmptyValue),
              (NewLabelSizesIndex (tag_LabelSizes env) 9 L3, EmptyValue)]"
    using GetSizeRange_labels [OF assms, of 4 10] three_sizes_in_range [OF that] by simp
  show ?thesis using a b c by blast
qed

lemma ref_stored_sizes: "stored_sizes ref_small_env = [(5, 11), (3, 12), (9, 13)]"
proof -
  have no: "\<not> is_LabelSizesKey 6 (NewLabelSpatialMapIndex 4 l z)" for l z
    by (simp add: is_LabelSizesKey_def NewLabelSpatialMapIndex_def)
  show ?thesis
    by (simp add: stored_sizes_def ref_small_env_def no is_LabelSizesKey_New LabelSizesKey_parts_New)
qed

lemma ref_small_keys:
  "\<forall>k\<in>set (map fst (small_kvs ref_small_env)).
     k \<noteq> [] \<and> hd k = tag_LabelSizes ref_small_env \<longrightarrow> length k = 17"
  by (simp add: ref_small_env_def NewLabelSpatialMapIndex_def NewLabelSizesIndex_def
      length_BigEndian_PutUint64)

theorem GetSizeRange_refines_witness:
  "GetSizeRange ref_small_env 4 10 = (''[11,13]'', None) \<and>
   GetSizeRange ref_small_env 20 0 = (''[]'', None)"
proof -
  have a: "SmallDataStore_err ref_small_env = None" by (simp add: ref_small_env_def)
  have b: "range_err ref_small_env = None" by (simp add: ref_small_env_def)
  have l: "labels_in_range ref_small_env 4 10 = [11, 13]"
    by (simp add: labels_in_range_def ref_stored_sizes count_in_range_def less_eq_prod_simp)
  have e: "labels_in_range ref_small_env 20 0 = []"
    by (simp add: labels_in_range_def ref_stored_sizes count_in_range_def)
  have j: "json_Marshal [11, 13] = ''[11,13]''"
    by (simp add: json_Marshal_def decimal.simps digit_char_def)
  have r1: "GetSizeRange ref_small_env 4 10 = (json_Marshal (labels_in_range ref_small_env 4 10), None)"
    using GetSizeRange_refines [OF a b ref_small_keys, of 4 10 0 0 0] by blast
  have r2: "GetSizeRange ref_small_env 20 0 = (''[]'', None)"
    using GetSizeRange_refines [OF a b ref_small_keys, of 20 0 0 0 0] e by blast
  show ?thesis using r1 r2 l j by simp
qed

end
